theory Spec2Isabelle
  imports Main "HOL-Library.Multiset"
begin

section \<open>Bytes and Python strings\<close>

text \<open>
  A Python \<open>bytes\<close> value is a list of 8-bit characters; a Python \<open>str\<close> is a list of
  Unicode code points (natural numbers below \<open>0x110000\<close>, lone surrogates allowed, as in
  Python).
\<close>

type_synonym bytes = "char list"
type_synonym ustr = "nat list"

definition ascii :: "string \<Rightarrow> ustr" where
  "ascii s = map of_char s"

subsection \<open>\<open>str.encode()\<close> and \<open>bytes.decode()\<close> (UTF-8, strict)\<close>

definition utf8_enc1 :: "nat \<Rightarrow> bytes option" where
  "utf8_enc1 c =
     (if c < 0x80 then Some [char_of c]
      else if c < 0x800 then Some [char_of (0xC0 + c div 64), char_of (0x80 + c mod 64)]
      else if c < 0x10000 then
        (if 0xD800 \<le> c \<and> c < 0xE000 then None
         else Some [char_of (0xE0 + c div 4096), char_of (0x80 + (c div 64) mod 64),
                    char_of (0x80 + c mod 64)])
      else if c < 0x110000 then
        Some [char_of (0xF0 + c div 262144), char_of (0x80 + (c div 4096) mod 64),
              char_of (0x80 + (c div 64) mod 64), char_of (0x80 + c mod 64)]
      else None)"

text \<open>\<open>None\<close> stands for \<open>UnicodeEncodeError\<close> (a lone surrogate in the string).\<close>

fun utf8_encode :: "ustr \<Rightarrow> bytes option" where
  "utf8_encode [] = Some []"
| "utf8_encode (c # cs) =
     (case utf8_enc1 c of
        None \<Rightarrow> None
      | Some bs \<Rightarrow> (case utf8_encode cs of None \<Rightarrow> None | Some r \<Rightarrow> Some (bs @ r)))"

definition cont :: "char \<Rightarrow> bool" where
  "cont b = (0x80 \<le> (of_char b :: nat) \<and> (of_char b :: nat) < 0xC0)"

definition cbits :: "char \<Rightarrow> nat" where
  "cbits b = of_char b mod 64"

text \<open>\<open>None\<close> stands for \<open>UnicodeDecodeError\<close>.\<close>

fun utf8_decode :: "bytes \<Rightarrow> ustr option" where
  "utf8_decode [] = Some []"
| "utf8_decode (b # bs) =
     (let n = (of_char b :: nat) in
      if n < 0x80 then map_option ((#) n) (utf8_decode bs)
      else if 0xC2 \<le> n \<and> n < 0xE0 then
        (case bs of
           b1 # r \<Rightarrow>
             if cont b1 then map_option ((#) ((n - 0xC0) * 64 + cbits b1)) (utf8_decode r)
             else None
         | _ \<Rightarrow> None)
      else if 0xE0 \<le> n \<and> n < 0xF0 then
        (case bs of
           b1 # b2 # r \<Rightarrow>
             if cont b1 \<and> cont b2
                \<and> (n = 0xE0 \<longrightarrow> 0xA0 \<le> (of_char b1 :: nat))
                \<and> (n = 0xED \<longrightarrow> (of_char b1 :: nat) < 0xA0)
             then map_option ((#) ((n - 0xE0) * 4096 + cbits b1 * 64 + cbits b2))
                    (utf8_decode r)
             else None
         | _ \<Rightarrow> None)
      else if 0xF0 \<le> n \<and> n < 0xF5 then
        (case bs of
           b1 # b2 # b3 # r \<Rightarrow>
             if cont b1 \<and> cont b2 \<and> cont b3
                \<and> (n = 0xF0 \<longrightarrow> 0x90 \<le> (of_char b1 :: nat))
                \<and> (n = 0xF4 \<longrightarrow> (of_char b1 :: nat) < 0x90)
             then map_option
                    ((#) ((n - 0xF0) * 262144 + cbits b1 * 4096 + cbits b2 * 64 + cbits b3))
                    (utf8_decode r)
             else None
         | _ \<Rightarrow> None)
      else None)"

subsection \<open>\<open>base64.b64encode\<close>, \<open>base64.urlsafe_b64encode\<close>, \<open>base64.b64decode\<close>\<close>

definition b64chr :: "nat \<Rightarrow> char" where
  "b64chr i =
     (if i < 26 then char_of (65 + i)
      else if i < 52 then char_of (71 + i)
      else if i < 62 then char_of (i - 4)
      else if i = 62 then CHR ''+''
      else CHR ''/'')"

definition b64val :: "char \<Rightarrow> nat option" where
  "b64val c =
     (let n = (of_char c :: nat) in
      if 65 \<le> n \<and> n \<le> 90 then Some (n - 65)
      else if 97 \<le> n \<and> n \<le> 122 then Some (n - 71)
      else if 48 \<le> n \<and> n \<le> 57 then Some (n + 4)
      else if n = 43 then Some 62
      else if n = 47 then Some 63
      else None)"

fun b64encode :: "bytes \<Rightarrow> bytes" where
  "b64encode [] = []"
| "b64encode [a] =
     (let x = (of_char a :: nat) in
      [b64chr (x div 4), b64chr ((x mod 4) * 16), CHR ''='', CHR ''=''])"
| "b64encode [a, b] =
     (let x = (of_char a :: nat); y = (of_char b :: nat) in
      [b64chr (x div 4), b64chr ((x mod 4) * 16 + y div 16), b64chr ((y mod 16) * 4),
       CHR ''=''])"
| "b64encode (a # b # c # rest) =
     (let x = (of_char a :: nat); y = (of_char b :: nat); z = (of_char c :: nat) in
      b64chr (x div 4) # b64chr ((x mod 4) * 16 + y div 16)
        # b64chr ((y mod 16) * 4 + z div 64) # b64chr (z mod 64) # b64encode rest)"

definition urlsafe :: "char \<Rightarrow> char" where
  "urlsafe c = (if c = CHR ''+'' then CHR ''-'' else if c = CHR ''/'' then CHR ''_'' else c)"

definition urlsafe_b64encode :: "bytes \<Rightarrow> bytes" where
  "urlsafe_b64encode s = map urlsafe (b64encode s)"

text \<open>
  \<open>base64.b64decode(s)\<close> with the default \<open>validate=False\<close>, as the source calls it:
  characters outside the alphabet are skipped, a complete pad sequence stops the scan, and
  a dangling quantum raises \<open>binascii.Error\<close> (here \<open>None\<close>). The scanner state is the
  position in the quantum, the left-over bits, and the number of pads seen in a row.
\<close>

fun a2b_base64 :: "nat \<Rightarrow> nat \<Rightarrow> nat \<Rightarrow> bytes \<Rightarrow> bytes option" where
  "a2b_base64 quad_pos leftchar pads [] = (if quad_pos \<noteq> 0 then None else Some [])"
| "a2b_base64 quad_pos leftchar pads (c # cs) =
     (if c = CHR ''='' then
        (if quad_pos \<ge> 2 \<and> quad_pos + (pads + 1) \<ge> 4 then Some []
         else a2b_base64 quad_pos leftchar (pads + 1) cs)
      else
        (case b64val c of
           None \<Rightarrow> a2b_base64 quad_pos leftchar pads cs
         | Some v \<Rightarrow>
             (if quad_pos = 0 then a2b_base64 1 v 0 cs
              else if quad_pos = 1 then
                map_option ((#) (char_of (leftchar * 4 + v div 16)))
                  (a2b_base64 2 (v mod 16) 0 cs)
              else if quad_pos = 2 then
                map_option ((#) (char_of (leftchar * 16 + v div 4)))
                  (a2b_base64 3 (v mod 4) 0 cs)
              else
                map_option ((#) (char_of (leftchar * 64 + v)))
                  (a2b_base64 0 0 0 cs))))"

definition b64decode :: "bytes \<Rightarrow> bytes option" where
  "b64decode s = a2b_base64 0 0 0 s"

subsection \<open>\<open>bytes.split(sep)\<close>\<close>

text \<open>
  Left-to-right, non-overlapping split on every occurrence of a non-empty separator, as
  \<open>bytes.split\<close> does. The accumulator holds the current part, reversed.
\<close>

function split_acc :: "bytes \<Rightarrow> bytes \<Rightarrow> bytes \<Rightarrow> bytes list" where
  "split_acc sep cur xs =
     (if xs = [] then [rev cur]
      else if sep \<noteq> [] \<and> take (length sep) xs = sep
        then rev cur # split_acc sep [] (drop (length sep) xs)
      else split_acc sep (hd xs # cur) (tl xs))"
  by pat_completeness auto
termination
  by (relation "measure (\<lambda>(sep, cur, xs). length xs)") (auto simp: neq_Nil_conv)

declare split_acc.simps [simp del]

definition split_bytes :: "bytes \<Rightarrow> bytes \<Rightarrow> bytes list" where
  "split_bytes sep xs = split_acc sep [] xs"

definition separator :: bytes where
  "separator = [char_of (0::nat), char_of (0::nat), char_of (0::nat)]"

subsection \<open>\<open>json.dumps({"filename": name}).encode()\<close>\<close>

definition hexdigit :: "nat \<Rightarrow> char" where
  "hexdigit n = (if n < 10 then char_of (48 + n) else char_of (87 + n))"

definition hex4 :: "nat \<Rightarrow> bytes" where
  "hex4 c = [hexdigit (c div 4096 mod 16), hexdigit (c div 256 mod 16),
             hexdigit (c div 16 mod 16), hexdigit (c mod 16)]"

text \<open>The escaping of \<open>json.dumps\<close> with its default \<open>ensure_ascii=True\<close>.\<close>

definition json_escape :: "nat \<Rightarrow> bytes" where
  "json_escape c =
     (if c = 0x22 then [CHR 0x5C, CHR 0x22]
      else if c = 0x5C then [CHR 0x5C, CHR 0x5C]
      else if c = 0x0A then [CHR 0x5C, CHR ''n'']
      else if c = 0x0D then [CHR 0x5C, CHR ''r'']
      else if c = 0x09 then [CHR 0x5C, CHR ''t'']
      else if c = 0x08 then [CHR 0x5C, CHR ''b'']
      else if c = 0x0C then [CHR 0x5C, CHR ''f'']
      else if 0x20 \<le> c \<and> c \<le> 0x7E then [char_of c]
      else if c < 0x10000 then [CHR 0x5C, CHR ''u''] @ hex4 c
      else [CHR 0x5C, CHR ''u''] @ hex4 (0xD800 + (c - 0x10000) div 1024)
           @ [CHR 0x5C, CHR ''u''] @ hex4 (0xDC00 + (c - 0x10000) mod 1024))"

definition json_dumps_filename :: "ustr \<Rightarrow> bytes" where
  "json_dumps_filename name =
     [CHR ''{'', CHR 0x22] @ ''filename'' @ [CHR 0x22, CHR '':'', CHR '' '', CHR 0x22]
       @ concat (map json_escape name) @ [CHR 0x22, CHR ''}'']"

section \<open>The collaborators and the world\<close>

text \<open>
  The hash, the Fernet cipher, the image library, the LSB codec and the JSON parser are
  external libraries. They are parameters of the model; each returns \<open>None\<close> where the
  library raises. \<open>fernet_encrypt key nonce data\<close> takes the fresh IV and timestamp of
  the call as \<open>nonce\<close>. \<open>image_save\<close> takes the output path, whose extension selects the
  file format. \<open>lsb_reveal\<close> returns \<open>Some None\<close> where the library returns \<open>None\<close>.
\<close>

datatype json = JString ustr | JObject "(ustr \<times> json) list" | JOther

record 'img libs =
  sha256 :: "bytes \<Rightarrow> bytes"
  fernet_encrypt :: "bytes \<Rightarrow> bytes \<Rightarrow> bytes \<Rightarrow> bytes option"
  fernet_decrypt :: "bytes \<Rightarrow> bytes \<Rightarrow> bytes option"
  image_open :: "bytes \<Rightarrow> 'img option"
  image_width :: "'img \<Rightarrow> nat"
  image_height :: "'img \<Rightarrow> nat"
  image_save :: "'img \<Rightarrow> ustr \<Rightarrow> bytes option"
  lsb_hide :: "'img \<Rightarrow> ustr \<Rightarrow> 'img option"
  lsb_reveal :: "'img \<Rightarrow> ustr option option"
  json_loads :: "bytes \<Rightarrow> json option"

datatype exn =
    UnicodeEncodeError | UnicodeDecodeError | ValueError | BinasciiError | JSONDecodeError
  | AttributeError | TypeError | OSError | LibraryError

datatype log_entry =
    Info_key_from_user | Info_key_random | Error_generating_key
  | Info_encrypted | Error_encrypting | Info_decrypted | Error_decrypting
  | Error_invalid_key | Info_key_for_encoding bytes | Error_reading_input
  | Error_opening_image | Error_encoding | Error_decoding_failed exn

datatype out_msg =
    Only_png | Invalid_key | Too_large nat nat | Message_size nat | Encoded_ok
  | Encryption_key bytes | Corrupted_format | Decoded_message ustr | Saved_to ustr
  | No_hidden_message | Loaded_words nat | Success_key ustr | No_valid_message
  | Interrupted_by_user

text \<open>
  The world: the files (path to contents), the log file \<open>stegano.log\<close> as the list of its
  entries, and what was printed.
\<close>

record world =
  fs :: "ustr \<rightharpoonup> bytes"
  log :: "log_entry list"
  out :: "out_msg list"

definition logging :: "log_entry \<Rightarrow> world \<Rightarrow> world" where
  "logging e w = w\<lparr>log := log w @ [e]\<rparr>"

definition print :: "out_msg \<Rightarrow> world \<Rightarrow> world" where
  "print m w = w\<lparr>out := out w @ [m]\<rparr>"

definition isfile :: "world \<Rightarrow> ustr \<Rightarrow> bool" where
  \<comment> \<open>\<open>os.path.isfile\<close>: a path with a trailing slash or a NUL never names a regular file.\<close>
  "isfile w p = (fs w p \<noteq> None \<and> p \<noteq> [] \<and> last p \<noteq> 0x2F \<and> 0 \<notin> set p)"

definition basename :: "ustr \<Rightarrow> ustr" where
  "basename p = rev (takeWhile (\<lambda>c. c \<noteq> 0x2F) (rev p))"

definition open_wb :: "ustr \<Rightarrow> world \<Rightarrow> world option" where
  \<comment> \<open>\<open>open(name, "wb")\<close> creates or truncates the file; \<open>None\<close> where it raises.\<close>
  "open_wb name w =
     (if name = [] \<or> last name = 0x2F \<or> 0 \<in> set name then None
      else Some (w\<lparr>fs := (fs w)(name \<mapsto> [])\<rparr>))"

section \<open>The program: class \<open>Stegano\<close>\<close>

subsection \<open>\<open>ensure_png\<close>\<close>

definition lower_cp :: "nat \<Rightarrow> nat" where
  \<comment> \<open>\<open>str.lower\<close> on the code points that matter for the suffix test below.\<close>
  "lower_cp c = (if 0x41 \<le> c \<and> c \<le> 0x5A then c + 0x20 else c)"

definition endswith :: "ustr \<Rightarrow> ustr \<Rightarrow> bool" where
  "endswith s suffix =
     (length suffix \<le> length s \<and> drop (length s - length suffix) s = suffix)"

definition ensure_png :: "ustr \<Rightarrow> world \<Rightarrow> world \<times> bool" where
  "ensure_png image_path w =
     (if \<not> endswith (map lower_cp image_path) (ascii ''.png'') then (print Only_png w, False)
      else (w, True))"

subsection \<open>\<open>generate_key\<close>, \<open>encrypt\<close>, \<open>decrypt\<close>\<close>

text \<open>
  \<open>user_key\<close> is \<open>None\<close> for Python's \<open>None\<close>. \<open>rnd\<close> is what \<open>os.urandom(32)\<close> returns
  inside \<open>Fernet.generate_key()\<close>, used when \<open>user_key\<close> is falsy (\<open>None\<close> or the empty
  string). An exception (\<open>str.encode\<close> on a lone surrogate) is caught and gives \<open>None\<close>.
\<close>

definition generate_key ::
  "'img libs \<Rightarrow> bytes \<Rightarrow> ustr option \<Rightarrow> world \<Rightarrow> world \<times> bytes option" where
  "generate_key L rnd user_key w =
     (case user_key of
        Some (c # cs) \<Rightarrow>
          (case utf8_encode (c # cs) of
             None \<Rightarrow> (logging Error_generating_key w, None)
           | Some b \<Rightarrow>
               (logging Info_key_from_user w, Some (urlsafe_b64encode (sha256 L b))))
      | _ \<Rightarrow> (logging Info_key_random w, Some (urlsafe_b64encode rnd)))"

definition encrypt ::
  "'img libs \<Rightarrow> bytes \<Rightarrow> bytes \<Rightarrow> bytes \<Rightarrow> world \<Rightarrow> world \<times> bytes option" where
  "encrypt L nonce data key w =
     (case fernet_encrypt L key nonce data of
        Some encrypted_data \<Rightarrow> (logging Info_encrypted w, Some encrypted_data)
      | None \<Rightarrow> (logging Error_encrypting w, None))"

definition decrypt ::
  "'img libs \<Rightarrow> bytes \<Rightarrow> bytes \<Rightarrow> world \<Rightarrow> world \<times> bytes option" where
  "decrypt L encrypted_data key w =
     (case fernet_decrypt L key encrypted_data of
        Some decrypted_data \<Rightarrow> (logging Info_decrypted w, Some decrypted_data)
      | None \<Rightarrow> (logging Error_decrypting w, None))"

subsection \<open>\<open>encode\<close>\<close>

definition frame :: "bytes \<Rightarrow> bytes \<Rightarrow> bytes" where
  "frame encrypted_data metadata = b64encode encrypted_data @ separator @ metadata"

text \<open>
  Lines 140 to 150: build the frame, hide it, save the image. Every exception there is
  caught and logged.
\<close>

definition hide_and_save ::
  "'img libs \<Rightarrow> 'img \<Rightarrow> bytes \<Rightarrow> bytes \<Rightarrow> ustr \<Rightarrow> bytes \<Rightarrow> world \<Rightarrow> world" where
  "hide_and_save L img encrypted_data metadata output_path key w =
     (case utf8_decode (frame encrypted_data metadata) of
        None \<Rightarrow> logging Error_encoding w
      | Some message \<Rightarrow>
          (case lsb_hide L img message of
             None \<Rightarrow> logging Error_encoding w
           | Some secret_image \<Rightarrow>
               (case image_save L secret_image output_path of
                  None \<Rightarrow> logging Error_encoding w
                | Some file \<Rightarrow>
                    print (Encryption_key key)
                      (print Encoded_ok (w\<lparr>fs := (fs w)(output_path \<mapsto> file)\<rparr>)))))"

text \<open>
  Lines 126 to 138: the size check. \<open>len(encrypted_data)\<close> raises \<open>TypeError\<close> when
  \<open>encrypt\<close> returned \<open>None\<close>; nothing catches it.
\<close>

definition max_message_size :: "'img libs \<Rightarrow> 'img \<Rightarrow> nat" where
  "max_message_size L img = image_width L img * image_height L img * 3 div 8"

definition message_size :: "bytes \<Rightarrow> bytes \<Rightarrow> nat" where
  "message_size encrypted_data metadata = length encrypted_data + length metadata"

definition check_and_embed ::
  "'img libs \<Rightarrow> 'img \<Rightarrow> bytes option \<Rightarrow> bytes \<Rightarrow> ustr \<Rightarrow> bytes \<Rightarrow> world
     \<Rightarrow> world \<times> exn option" where
  "check_and_embed L img encrypted_data metadata output_path key w =
     (case encrypted_data of
        None \<Rightarrow> (w, Some TypeError)
      | Some ed \<Rightarrow>
          (if message_size ed metadata > max_message_size L img then
             (print (Too_large (message_size ed metadata) (max_message_size L img)) w, None)
           else
             (hide_and_save L img ed metadata output_path key
                (print (Message_size (message_size ed metadata)) w), None)))"

text \<open>Lines 114 to 150: what \<open>encode\<close> does once it has the payload and its name.\<close>

definition embed_payload ::
  "'img libs \<Rightarrow> bytes \<Rightarrow> ustr \<Rightarrow> ustr \<Rightarrow> bytes \<Rightarrow> ustr \<Rightarrow> bytes \<Rightarrow> world
     \<Rightarrow> world \<times> exn option" where
  "embed_payload L nonce image_path output_path key original_filename file_data w =
     (case encrypt L nonce file_data key w of
        (w1, encrypted_data) \<Rightarrow>
          (let metadata = json_dumps_filename original_filename in
           case Option.bind (fs w1 image_path) (image_open L) of
             None \<Rightarrow> (logging Error_opening_image w1, None)
           | Some img \<Rightarrow>
               check_and_embed L img encrypted_data metadata output_path key w1))"

text \<open>
  \<open>encode\<close> returns nothing; the result is the world after it and the exception that left
  it, if any. The payload is the contents and base name of the file when \<open>input_data\<close>
  names one, otherwise the text itself under the name \<open>message.txt\<close>; \<open>str.encode\<close> is
  outside any \<open>try\<close> there, so its exception leaves \<open>encode\<close>.
\<close>

definition encode ::
  "'img libs \<Rightarrow> bytes \<Rightarrow> bytes \<Rightarrow> ustr \<Rightarrow> ustr \<Rightarrow> ustr \<Rightarrow> ustr option \<Rightarrow> world
     \<Rightarrow> world \<times> exn option" where
  "encode L rnd nonce image_path input_data output_path user_key w =
     (case ensure_png image_path w of
        (w0, False) \<Rightarrow> (w0, None)
      | (w0, True) \<Rightarrow>
          (case generate_key L rnd user_key w0 of
             (w1, None) \<Rightarrow> (logging Error_invalid_key w1, None)
           | (w1, Some []) \<Rightarrow> (logging Error_invalid_key w1, None)
           | (w1, Some (k # ks)) \<Rightarrow>
               (let key = k # ks; w2 = logging (Info_key_for_encoding key) w1 in
                if isfile w2 input_data then
                  (case fs w2 input_data of
                     None \<Rightarrow> (logging Error_reading_input w2, None)
                   | Some file_data \<Rightarrow>
                       embed_payload L nonce image_path output_path key
                         (basename input_data) file_data w2)
                else
                  (case utf8_encode input_data of
                     None \<Rightarrow> (w2, Some UnicodeEncodeError)
                   | Some file_data \<Rightarrow>
                       embed_payload L nonce image_path output_path key
                         (ascii ''message.txt'') file_data w2))))"

subsection \<open>\<open>decode\<close>\<close>

text \<open>
  Lines 180 to 195. \<open>decrypted_data\<close> is \<open>None\<close> when \<open>decrypt\<close> failed. The result carries
  the world as it is when the exception is raised: \<open>open(..., "wb")\<close> has created or
  truncated the file before \<open>f.write(None)\<close> raises.
\<close>

definition deliver ::
  "ustr \<Rightarrow> bytes option \<Rightarrow> bool \<Rightarrow> ustr option \<Rightarrow> bool \<Rightarrow> world
     \<Rightarrow> world \<times> (exn + ustr option)" where
  "deliver original_filename decrypted_data suppress_output output_file from_bruteforce w =
     (if original_filename = ascii ''message.txt'' then
        (case decrypted_data of
           None \<Rightarrow> (w, Inl AttributeError)
         | Some d \<Rightarrow>
             (case utf8_decode d of
                None \<Rightarrow> (w, Inl UnicodeDecodeError)
              | Some s \<Rightarrow>
                  ((if \<not> suppress_output then print (Decoded_message s) w else w),
                   Inr (Some s))))
      else
        (let output_filename =
               (case output_file of Some (c # cs) \<Rightarrow> c # cs | _ \<Rightarrow> original_filename) in
         case open_wb output_filename w of
           None \<Rightarrow> (w, Inl OSError)
         | Some w1 \<Rightarrow>
             (case decrypted_data of
                None \<Rightarrow> (w1, Inl TypeError)
              | Some d \<Rightarrow>
                  (let w2 = w1\<lparr>fs := (fs w1)(output_filename \<mapsto> d)\<rparr> in
                   ((if \<not> from_bruteforce then print (Saved_to output_filename) w2 else w2),
                    Inr (Some output_filename))))))"

text \<open>
  \<open>metadata.get("filename", "decoded_file")\<close>: \<open>AttributeError\<close> when the JSON value is
  not an object. A file name that is not a string is not opened (\<open>TypeError\<close>).
\<close>

definition get_filename :: "json \<Rightarrow> exn + ustr" where
  "get_filename metadata =
     (case metadata of
        JObject kv \<Rightarrow>
          (case map_of kv (ascii ''filename'') of
             None \<Rightarrow> Inr (ascii ''decoded_file'')
           | Some (JString name) \<Rightarrow> Inr name
           | Some _ \<Rightarrow> Inl TypeError)
      | _ \<Rightarrow> Inl AttributeError)"

text \<open>Lines 173 to 195: what \<open>decode\<close> does with the two parts of the frame.\<close>

definition decode_parts ::
  "'img libs \<Rightarrow> bytes \<Rightarrow> bytes \<Rightarrow> bytes \<Rightarrow> bool \<Rightarrow> ustr option \<Rightarrow> bool \<Rightarrow> world
     \<Rightarrow> world \<times> (exn + ustr option)" where
  "decode_parts L key encrypted_data metadata suppress_output output_file from_bruteforce w =
     (case b64decode encrypted_data of
        None \<Rightarrow> (w, Inl BinasciiError)
      | Some token \<Rightarrow>
          (case decrypt L token key w of
             (w1, decrypted_data) \<Rightarrow>
               (case json_loads L metadata of
                  None \<Rightarrow> (w1, Inl JSONDecodeError)
                | Some md \<Rightarrow>
                    (case get_filename md of
                       Inl e \<Rightarrow> (w1, Inl e)
                     | Inr original_filename \<Rightarrow>
                         deliver original_filename decrypted_data
                           suppress_output output_file from_bruteforce w1))))"

text \<open>
  Lines 166 to 195, the body of \<open>if encrypted_message:\<close>. The unpacking
  \<open>encrypted_data, metadata = parts\<close> raises \<open>ValueError\<close> when there are more than two
  parts.
\<close>

definition decode_message ::
  "'img libs \<Rightarrow> bytes \<Rightarrow> ustr \<Rightarrow> bool \<Rightarrow> ustr option \<Rightarrow> bool \<Rightarrow> world
     \<Rightarrow> world \<times> (exn + ustr option)" where
  "decode_message L key encrypted_message suppress_output output_file from_bruteforce w =
     (case utf8_encode encrypted_message of
        None \<Rightarrow> (w, Inl UnicodeEncodeError)
      | Some raw \<Rightarrow>
          (let parts = split_bytes separator raw in
           if length parts < 2 then (print Corrupted_format w, Inr None)
           else
             (case parts of
                [encrypted_data, metadata] \<Rightarrow>
                  decode_parts L key encrypted_data metadata suppress_output output_file
                    from_bruteforce w
              | _ \<Rightarrow> (w, Inl ValueError))))"

text \<open>\<open>lsb.reveal(image_path)\<close> opens the file itself.\<close>

definition reveal :: "'img libs \<Rightarrow> world \<Rightarrow> ustr \<Rightarrow> exn + ustr option" where
  "reveal L w image_path =
     (case fs w image_path of
        None \<Rightarrow> Inl OSError
      | Some file \<Rightarrow>
          (case image_open L file of
             None \<Rightarrow> Inl LibraryError
           | Some img \<Rightarrow>
               (case lsb_reveal L img of None \<Rightarrow> Inl LibraryError | Some r \<Rightarrow> Inr r)))"

text \<open>
  \<open>decode\<close> returns the decoded text, the name of the file it wrote, or \<open>None\<close>. Every
  exception of the \<open>try\<close> block is caught and logged, and \<open>None\<close> is returned.
\<close>

definition decode ::
  "'img libs \<Rightarrow> bytes \<Rightarrow> ustr \<Rightarrow> ustr option \<Rightarrow> bool \<Rightarrow> ustr option \<Rightarrow> bool \<Rightarrow> world
     \<Rightarrow> world \<times> ustr option" where
  "decode L rnd image_path user_key suppress_output output_file from_bruteforce w =
     (case ensure_png image_path w of
        (w0, False) \<Rightarrow> (w0, None)
      | (w0, True) \<Rightarrow>
          (case generate_key L rnd user_key w0 of
             (w1, None) \<Rightarrow> (print Invalid_key w1, None)
           | (w1, Some []) \<Rightarrow> (print Invalid_key w1, None)
           | (w1, Some (k # ks)) \<Rightarrow>
               (case reveal L w1 image_path of
                  Inl e \<Rightarrow> (logging (Error_decoding_failed e) w1, None)
                | Inr None \<Rightarrow> (print No_hidden_message w1, None)
                | Inr (Some []) \<Rightarrow> (print No_hidden_message w1, None)
                | Inr (Some (c # cs)) \<Rightarrow>
                    (case decode_message L (k # ks) (c # cs) suppress_output output_file
                            from_bruteforce w1 of
                       (w2, Inl e) \<Rightarrow> (logging (Error_decoding_failed e) w2, None)
                     | (w2, Inr r) \<Rightarrow> (w2, r)))))"

section \<open>Auxiliary predicates\<close>

definition is_ascii :: "bytes \<Rightarrow> bool" where
  "is_ascii bs = (\<forall>c\<in>set bs. (of_char c :: nat) < 128)"

definition b64char :: "char \<Rightarrow> bool" where
  "b64char c = (c = CHR ''='' \<or> b64val c \<noteq> None)"

definition nul :: char where
  "nul = char_of (0::nat)"

text \<open>The alphabet of RFC 4648, section 5 (URL-safe base64), and the pad character.\<close>

definition urlsafe_char :: "char \<Rightarrow> bool" where
  "urlsafe_char c =
     (let n = (of_char c :: nat) in
      (0x41 \<le> n \<and> n \<le> 0x5A) \<or> (0x61 \<le> n \<and> n \<le> 0x7A) \<or> (0x30 \<le> n \<and> n \<le> 0x39)
        \<or> c = CHR ''-'' \<or> c = CHR ''_'' \<or> c = CHR ''='')"

text \<open>
  The payload that \<open>encode\<close> takes from \<open>input_data\<close> (lines 102 to 112): the base name and
  the contents of the file when \<open>input_data\<close> names one, the name \<open>message.txt\<close> and the
  bytes of the text otherwise.
\<close>

definition payload :: "world \<Rightarrow> ustr \<Rightarrow> (ustr \<times> bytes) option" where
  "payload w input_data =
     (if isfile w input_data
      then map_option (\<lambda>d. (basename input_data, d)) (fs w input_data)
      else map_option (\<lambda>d. (ascii ''message.txt'', d)) (utf8_encode input_data))"

section \<open>A small instance of the collaborators\<close>

text \<open>
  A stand-in for the external libraries, used to run the model on concrete inputs: a
  32-byte digest that pads or truncates its input, a cipher whose token is the key followed
  by the plaintext, images that are a width, a height and the hidden text (stored in a
  file as two bytes and the UTF-8 text), and a JSON parser that knows two documents.
\<close>

definition toy_sha256 :: "bytes \<Rightarrow> bytes" where
  "toy_sha256 b = take 32 (b @ replicate 32 (CHR ''#''))"

definition toy_encrypt :: "bytes \<Rightarrow> bytes \<Rightarrow> bytes \<Rightarrow> bytes option" where
  "toy_encrypt key nonce data = (if length key = 44 then Some (key @ data) else None)"

definition toy_decrypt :: "bytes \<Rightarrow> bytes \<Rightarrow> bytes option" where
  "toy_decrypt key token =
     (if length key = 44 \<and> take 44 token = key then Some (drop 44 token) else None)"

type_synonym toy_image = "nat \<times> nat \<times> ustr"

definition toy_open :: "bytes \<Rightarrow> toy_image option" where
  "toy_open file =
     (case file of
        a # b # rest \<Rightarrow> map_option (\<lambda>t. (of_char a, of_char b, t)) (utf8_decode rest)
      | _ \<Rightarrow> None)"

definition toy_save :: "toy_image \<Rightarrow> ustr \<Rightarrow> bytes option" where
  "toy_save img path =
     (case img of (w, h, t) \<Rightarrow> map_option (\<lambda>bs. char_of w # char_of h # bs) (utf8_encode t))"

definition toy_hide :: "toy_image \<Rightarrow> ustr \<Rightarrow> toy_image option" where
  "toy_hide img message =
     (case img of (w, h, t) \<Rightarrow>
        if message = [] \<or> w * h * 3 div 8 < length message then None
        else Some (w, h, message))"

definition toy_reveal :: "toy_image \<Rightarrow> ustr option option" where
  "toy_reveal img = (case img of (w, h, t) \<Rightarrow> Some (if t = [] then None else Some t))"

definition toy_json_loads :: "bytes \<Rightarrow> json option" where
  "toy_json_loads b =
     (if b = json_dumps_filename (ascii ''message.txt'')
        then Some (JObject [(ascii ''filename'', JString (ascii ''message.txt''))])
      else if b = json_dumps_filename (ascii ''secret.bin'')
        then Some (JObject [(ascii ''filename'', JString (ascii ''secret.bin''))])
      else None)"

definition toy :: "toy_image libs" where
  "toy = \<lparr> sha256 = toy_sha256, fernet_encrypt = toy_encrypt, fernet_decrypt = toy_decrypt,
           image_open = toy_open, image_width = fst, image_height = (\<lambda>i. fst (snd i)),
           image_save = toy_save, lsb_hide = toy_hide, lsb_reveal = toy_reveal,
           json_loads = toy_json_loads \<rparr>"

definition world0 :: world where
  "world0 = \<lparr> fs = Map.empty, log = [], out = [] \<rparr>"

definition printable :: "char \<Rightarrow> bool" where
  "printable c = (0x21 \<le> (of_char c :: nat) \<and> (of_char c :: nat) \<le> 0x7E)"

section \<open>\<open>bruteforce\<close>: reading the word list\<close>

text \<open>
  The four encodings that \<open>read_wordlist\<close> tries, in this order. \<open>latin-1\<close> and its alias
  \<open>iso-8859-1\<close> map every byte to the code point of the same number; \<open>cp1252\<close> differs
  from them on the bytes \<open>0x80\<close> to \<open>0x9F\<close> and has no character for five of them.
\<close>

datatype encoding = Latin1 | Iso8859_1 | Cp1252 | Utf8

definition encodings :: "encoding list" where
  "encodings = [Latin1, Iso8859_1, Cp1252, Utf8]"

definition latin1_decode :: "bytes \<Rightarrow> ustr" where
  "latin1_decode b = map of_char b"

definition cp1252_table :: "nat option list" where
  "cp1252_table =
     [Some 0x20AC, None, Some 0x201A, Some 0x0192, Some 0x201E, Some 0x2026, Some 0x2020,
      Some 0x2021, Some 0x02C6, Some 0x2030, Some 0x0160, Some 0x2039, Some 0x0152, None,
      Some 0x017D, None, None, Some 0x2018, Some 0x2019, Some 0x201C, Some 0x201D,
      Some 0x2022, Some 0x2013, Some 0x2014, Some 0x02DC, Some 0x2122, Some 0x0161,
      Some 0x203A, Some 0x0153, None, Some 0x017E, Some 0x0178]"

definition cp1252_char :: "char \<Rightarrow> nat option" where
  "cp1252_char c =
     (let n = (of_char c :: nat) in
      if 0x80 \<le> n \<and> n < 0xA0 then cp1252_table ! (n - 0x80) else Some n)"

fun cp1252_decode :: "bytes \<Rightarrow> ustr option" where
  "cp1252_decode [] = Some []"
| "cp1252_decode (c # cs) =
     (case cp1252_char c of
        None \<Rightarrow> None
      | Some u \<Rightarrow> map_option ((#) u) (cp1252_decode cs))"

fun decode_with :: "encoding \<Rightarrow> bytes \<Rightarrow> ustr option" where
  "decode_with Latin1 b = Some (latin1_decode b)"
| "decode_with Iso8859_1 b = Some (latin1_decode b)"
| "decode_with Cp1252 b = cp1252_decode b"
| "decode_with Utf8 b = utf8_decode b"

text \<open>
  The lines of a text file opened with the default \<open>newline=None\<close>: a line ends at
  \<open>\n\<close>, \<open>\r\n\<close> or \<open>\r\<close>, each handed over as \<open>\n\<close>; what follows the last line end is
  a line when it is not empty. The accumulator holds the current line, reversed.
\<close>

fun lines_acc :: "ustr \<Rightarrow> ustr \<Rightarrow> ustr list" where
  "lines_acc cur [] = (if cur = [] then [] else [rev cur])"
| "lines_acc cur (c # cs) =
     (if c = 0x0A then rev (0x0A # cur) # lines_acc [] cs
      else if c = 0x0D then
        (case cs of
           d # ds \<Rightarrow>
             if d = 0x0A then rev (0x0A # cur) # lines_acc [] ds
             else rev (0x0A # cur) # lines_acc [] cs
         | [] \<Rightarrow> rev (0x0A # cur) # lines_acc [] cs)
      else lines_acc (c # cur) cs)"

definition lines_of :: "ustr \<Rightarrow> ustr list" where
  "lines_of t = lines_acc [] t"

text \<open>\<open>str.strip()\<close>: the white space of \<open>str.isspace\<close> is removed at both ends.\<close>

definition isspace :: "nat \<Rightarrow> bool" where
  "isspace c =
     ((0x09 \<le> c \<and> c \<le> 0x0D) \<or> (0x1C \<le> c \<and> c \<le> 0x20) \<or> c = 0x85 \<or> c = 0xA0
      \<or> c = 0x1680 \<or> (0x2000 \<le> c \<and> c \<le> 0x200A) \<or> c = 0x2028 \<or> c = 0x2029
      \<or> c = 0x202F \<or> c = 0x205F \<or> c = 0x3000)"

definition strip :: "ustr \<Rightarrow> ustr" where
  "strip s = rev (dropWhile isspace (rev (dropWhile isspace s)))"

text \<open>
  The generator \<open>read_wordlist\<close> (lines 226 to 235), as the list of the words it yields.
  With an encoding that decodes the file, the words are the stripped lines and the loop
  ends (\<open>break\<close>). With an encoding that does not, \<open>UnicodeDecodeError\<close> is raised while the
  file is read, after the lines of the blocks read so far have been yielded, and the loop
  goes on to the next encoding, which reads the file from its start. Which lines had been
  yielded depends on the block size of the reader; \<open>yielded_before\<close> gives them.
\<close>

fun read_wordlist_with ::
  "(encoding \<Rightarrow> bytes \<Rightarrow> ustr list) \<Rightarrow> encoding list \<Rightarrow> bytes \<Rightarrow> ustr list" where
  "read_wordlist_with yielded_before [] file = []"
| "read_wordlist_with yielded_before (encoding # rest) file =
     (case decode_with encoding file of
        Some t \<Rightarrow> map strip (lines_of t)
      | None \<Rightarrow> yielded_before encoding file @ read_wordlist_with yielded_before rest file)"

definition read_wordlist :: "(encoding \<Rightarrow> bytes \<Rightarrow> ustr list) \<Rightarrow> bytes \<Rightarrow> ustr list" where
  "read_wordlist yielded_before file = read_wordlist_with yielded_before encodings file"

text \<open>Line 237: \<open>sum(1 for _ in open(wordlist_path, "r", encoding="latin-1"))\<close>.\<close>

definition total_words :: "bytes \<Rightarrow> nat" where
  "total_words file = length (lines_of (latin1_decode file))"

text \<open>The text after the translation of the line ends.\<close>

fun universal_newlines :: "ustr \<Rightarrow> ustr" where
  "universal_newlines [] = []"
| "universal_newlines (c # cs) =
     (if c = 0x0D then
        (case cs of
           d # ds \<Rightarrow> if d = 0x0A then 0x0A # universal_newlines ds
                     else 0x0A # universal_newlines cs
         | [] \<Rightarrow> [0x0A])
      else c # universal_newlines cs)"

section \<open>Facts about the codecs\<close>

subsection \<open>Base64\<close>

lemma b64val_b64chr: "i < 64 \<Longrightarrow> b64val (b64chr i) = Some i"
  by (auto simp: b64val_def b64chr_def Let_def)

lemma b64chr_not_pad: "i < 64 \<Longrightarrow> b64chr i \<noteq> CHR ''=''"
  by (auto simp: b64chr_def char_of_eq_iff take_bit_eq_mod)

lemma a2b_step0:
  "i < 64 \<Longrightarrow> a2b_base64 0 l p (b64chr i # cs) = a2b_base64 1 i 0 cs"
  by (simp add: b64val_b64chr b64chr_not_pad)

lemma a2b_step1:
  "i < 64 \<Longrightarrow> a2b_base64 1 l p (b64chr i # cs)
     = map_option ((#) (char_of (l * 4 + i div 16))) (a2b_base64 2 (i mod 16) 0 cs)"
  by (simp add: b64val_b64chr b64chr_not_pad)

lemma a2b_step2:
  "i < 64 \<Longrightarrow> a2b_base64 2 l p (b64chr i # cs)
     = map_option ((#) (char_of (l * 16 + i div 4))) (a2b_base64 3 (i mod 4) 0 cs)"
  by (simp add: b64val_b64chr b64chr_not_pad)

lemma a2b_step3:
  "i < 64 \<Longrightarrow> a2b_base64 3 l p (b64chr i # cs)
     = map_option ((#) (char_of (l * 64 + i))) (a2b_base64 0 0 0 cs)"
  by (simp add: b64val_b64chr b64chr_not_pad)

lemma a2b_pad2: "a2b_base64 2 l 0 [CHR ''='', CHR ''=''] = Some []"
  by simp

lemma a2b_pad3: "a2b_base64 3 l 0 [CHR ''=''] = Some []"
  by simp

lemma b64_bounds:
  fixes x y z :: nat
  assumes "x < 256" "y < 256" "z < 256"
  shows "x div 4 < 64" "x mod 4 * 16 < 64" "x mod 4 * 16 + y div 16 < 64"
    "y mod 16 * 4 < 64" "y mod 16 * 4 + z div 64 < 64" "z mod 64 < 64"
  using assms by auto

lemma b64_arith:
  fixes x y z :: nat
  assumes "x < 256" "y < 256" "z < 256"
  shows "x div 4 * 4 + (x mod 4 * 16) div 16 = x"
    "x div 4 * 4 + (x mod 4 * 16 + y div 16) div 16 = x"
    "(x mod 4 * 16) mod 16 = 0"
    "(x mod 4 * 16 + y div 16) mod 16 * 16 + (y mod 16 * 4) div 4 = y"
    "(x mod 4 * 16 + y div 16) mod 16 * 16 + (y mod 16 * 4 + z div 64) div 4 = y"
    "(y mod 16 * 4 + z div 64) mod 4 * 64 + z mod 64 = z"
  using assms by (auto simp: div_add1_eq mod_add_eq) 

lemma b64decode_b64encode_aux: "a2b_base64 0 0 0 (b64encode xs) = Some xs"
proof (induction xs rule: b64encode.induct)
  case 1
  show ?case by simp
next
  case (2 a)
  define x :: nat where "x = of_char a"
  have x: "x < 256" by (simp add: x_def)
  have "a2b_base64 0 0 0 (b64encode [a]) = Some [char_of x]"
    by (simp only: b64encode.simps Let_def x_def[symmetric] a2b_step0 a2b_step1
          b64_bounds[OF x x x] b64_arith[OF x x x] a2b_pad2 option.map)
  then show ?case by (simp add: x_def)
next
  case (3 a b)
  define x :: nat where "x = of_char a"
  define y :: nat where "y = of_char b"
  have x: "x < 256" and y: "y < 256" by (simp_all add: x_def y_def)
  have "a2b_base64 0 0 0 (b64encode [a, b]) = Some [char_of x, char_of y]"
    by (simp only: b64encode.simps Let_def x_def[symmetric] y_def[symmetric] a2b_step0 a2b_step1
          a2b_step2 b64_bounds[OF x y y] b64_arith[OF x y y] a2b_pad3 option.map)
  then show ?case by (simp add: x_def y_def)
next
  case (4 a b c rest)
  define x :: nat where "x = of_char a"
  define y :: nat where "y = of_char b"
  define z :: nat where "z = of_char c"
  have x: "x < 256" and y: "y < 256" and z: "z < 256" by (simp_all add: x_def y_def z_def)
  have "a2b_base64 0 0 0 (b64encode (a # b # c # rest))
      = Some (char_of x # char_of y # char_of z # rest)"
    by (simp only: b64encode.simps Let_def x_def[symmetric] y_def[symmetric] z_def[symmetric]
          a2b_step0 a2b_step1 a2b_step2 a2b_step3
          b64_bounds[OF x y z] b64_arith[OF x y z] 4 option.map)
  then show ?case by (simp add: x_def y_def z_def)
qed

lemma div3_step: "(n + 5) div 3 = Suc ((n + 2) div 3)"
proof -
  have "(n + 5) div 3 = (n + 2 + 3) div 3" by (simp add: add.assoc)
  also have "\<dots> = (n + 2) div 3 + 1" by (simp only: div_add_self2)
  finally show ?thesis by simp
qed

lemma length_b64encode: "length (b64encode xs) = 4 * ((length xs + 2) div 3)"
proof (induction xs rule: b64encode.induct)
  case (4 a b c rest)
  have "length (b64encode (a # b # c # rest)) = 4 + length (b64encode rest)"
    by (simp add: Let_def)
  also have "\<dots> = 4 * Suc ((length rest + 2) div 3)"
    using 4 by simp
  also have "\<dots> = 4 * ((length (a # b # c # rest) + 2) div 3)"
    using div3_step [of "length rest"] by (simp del: mult_Suc_right)
  finally show ?case .
qed (simp_all add: Let_def)

lemma b64chr_ascii: "i < 64 \<Longrightarrow> 0 < (of_char (b64chr i) :: nat) \<and> (of_char (b64chr i) :: nat) < 128"
  by (auto simp: b64chr_def)

lemma b64char_b64chr: "i < 64 \<Longrightarrow> b64char (b64chr i)"
  by (auto simp: b64char_def b64val_def b64chr_def Let_def)

lemma b64encode_chars: "c \<in> set (b64encode xs) \<Longrightarrow> b64char c"
proof (induction xs rule: b64encode.induct)
  case 1
  then show ?case by simp
next
  case (2 a)
  note b64_bounds [of "of_char a" "of_char a" "of_char a", simplified]
  with 2 show ?case by (auto simp: Let_def b64char_b64chr) (simp add: b64char_def)
next
  case (3 a b)
  note b64_bounds [of "of_char a" "of_char b" "of_char b", simplified]
  with 3 show ?case by (auto simp: Let_def b64char_b64chr) (simp add: b64char_def)
next
  case (4 a b c' rest)
  note b64_bounds [of "of_char a" "of_char b" "of_char c'", simplified]
  with 4 show ?case by (auto simp: Let_def b64char_b64chr)
qed

lemma b64val_range: "b64val c = Some v \<Longrightarrow> 0 < (of_char c :: nat) \<and> (of_char c :: nat) < 128"
  unfolding b64val_def Let_def by (simp split: if_splits)

lemma b64char_ascii: "b64char c \<Longrightarrow> 0 < (of_char c :: nat) \<and> (of_char c :: nat) < 128"
  unfolding b64char_def using b64val_range [of c] by auto

subsection \<open>UTF-8\<close>

lemma utf8_decode_ascii: "is_ascii bs \<Longrightarrow> utf8_decode bs = Some (map of_char bs)"
  by (induction bs) (simp_all add: is_ascii_def Let_def)

lemma utf8_encode_ascii: "is_ascii bs \<Longrightarrow> utf8_encode (map of_char bs) = Some bs"
  by (induction bs) (simp_all add: is_ascii_def utf8_enc1_def)

lemma utf8_dec_enc1_1:
  assumes "c < 0x80"
  shows "utf8_decode (char_of c # r) = map_option ((#) c) (utf8_decode r)"
  using assms by (simp add: Let_def)

lemma of_char_char_of_small: "n < 256 \<Longrightarrow> (of_char (char_of n :: char) :: nat) = n"
  by simp

lemma cont_char_of: "(m::nat) < 64 \<Longrightarrow> cont (char_of (0x80 + m)) \<and> cbits (char_of (0x80 + m)) = m"
proof -
  assume m: "m < 64"
  have o: "(of_char (char_of (0x80 + m) :: char) :: nat) = 0x80 + m"
    using m by (intro of_char_char_of_small) simp
  have "(128 + m) mod 64 = (64 * 2 + m) mod 64" by simp
  also have "\<dots> = m mod 64" by (simp only: mod_mult_self4)
  finally have "(128 + m) mod 64 = m" using m by simp
  then show ?thesis unfolding cont_def cbits_def o using m by simp
qed

lemma utf8_dec_enc1_2:
  assumes "0x80 \<le> c" "c < 0x800"
  shows "utf8_decode (char_of (0xC0 + c div 64) # char_of (0x80 + c mod 64) # r)
         = map_option ((#) c) (utf8_decode r)"
proof -
  define h where "h = c div 64"
  define l where "l = c mod 64"
  have c: "c = h * 64 + l" by (simp add: h_def l_def)
  have bl: "l < 64" by (simp add: l_def)
  have b: "2 \<le> h" "h < 32" using assms c bl by linarith+
  have oh: "(of_char (char_of (0xC0 + h) :: char) :: nat) = 0xC0 + h"
    using b by (intro of_char_char_of_small) simp
  have cl: "cont (char_of (0x80 + l))" "cbits (char_of (0x80 + l)) = l"
    using cont_char_of bl by simp_all
  have "utf8_decode (char_of (0xC0 + h) # char_of (0x80 + l) # r)
        = map_option ((#) (h * 64 + l)) (utf8_decode r)"
    unfolding utf8_decode.simps oh Let_def
    using b by (simp add: cl)
  then show ?thesis
    unfolding h_def[symmetric] l_def[symmetric] using c by simp
qed

lemma split64_2: "(c::nat) = c div 4096 * 4096 + c div 64 mod 64 * 64 + c mod 64"
proof -
  define a where "a = c div 64"
  have 1: "c div 4096 = a div 64" by (simp add: a_def div_mult2_eq)
  have 2: "a = a div 64 * 64 + a mod 64" by simp
  have 3: "c = a * 64 + c mod 64" by (simp add: a_def)
  show ?thesis unfolding 1 a_def[symmetric] using 2 3 by linarith
qed

lemma split64_3:
  "(c::nat) = c div 262144 * 262144 + c div 4096 mod 64 * 4096 + c div 64 mod 64 * 64 + c mod 64"
proof -
  define a where "a = c div 4096"
  have 1: "c div 262144 = a div 64" by (simp add: a_def div_mult2_eq)
  have 2: "a = a div 64 * 64 + a mod 64" by simp
  have 3: "c = a * 4096 + c div 64 mod 64 * 64 + c mod 64"
    unfolding a_def by (rule split64_2)
  show ?thesis unfolding 1 a_def[symmetric] using 2 3 by linarith
qed

lemma utf8_dec_enc1_3:
  assumes "0x800 \<le> c" "c < 0x10000" "\<not> (0xD800 \<le> c \<and> c < 0xE000)"
  shows "utf8_decode (char_of (0xE0 + c div 4096) # char_of (0x80 + (c div 64) mod 64)
            # char_of (0x80 + c mod 64) # r)
         = map_option ((#) c) (utf8_decode r)"
proof -
  define h where "h = c div 4096"
  define m where "m = (c div 64) mod 64"
  define l where "l = c mod 64"
  have c: "c = h * 4096 + m * 64 + l"
    unfolding h_def m_def l_def by (rule split64_2)
  have b: "m < 64" "l < 64" by (simp_all add: m_def l_def)
  have bh: "h < 16" using assms(2) c by linarith
  have e0: "h = 0 \<Longrightarrow> 32 \<le> m" using assms(1) c b by linarith
  have ed: "h = 13 \<Longrightarrow> m < 32" using assms(3) c b by linarith
  have oh: "(of_char (char_of (0xE0 + h) :: char) :: nat) = 0xE0 + h"
    using bh by (intro of_char_char_of_small) simp
  have om: "(128 + m) mod 256 = 128 + m"
    using b by simp
  have cm: "cont (char_of (0x80 + m))" "cbits (char_of (0x80 + m)) = m"
    and cl: "cont (char_of (0x80 + l))" "cbits (char_of (0x80 + l)) = l"
    using cont_char_of b by simp_all
  have "utf8_decode (char_of (0xE0 + h) # char_of (0x80 + m) # char_of (0x80 + l) # r)
        = map_option ((#) (h * 4096 + m * 64 + l)) (utf8_decode r)"
    unfolding utf8_decode.simps oh Let_def
    using bh e0 ed by (simp add: cm cl om)
  then show ?thesis
    unfolding h_def[symmetric] m_def[symmetric] l_def[symmetric] using c by simp
qed

lemma utf8_dec_enc1_4:
  assumes "0x10000 \<le> c" "c < 0x110000"
  shows "utf8_decode (char_of (0xF0 + c div 262144) # char_of (0x80 + (c div 4096) mod 64)
            # char_of (0x80 + (c div 64) mod 64) # char_of (0x80 + c mod 64) # r)
         = map_option ((#) c) (utf8_decode r)"
proof -
  define h where "h = c div 262144"
  define k where "k = (c div 4096) mod 64"
  define m where "m = (c div 64) mod 64"
  define l where "l = c mod 64"
  have c: "c = h * 262144 + k * 4096 + m * 64 + l"
    unfolding h_def k_def m_def l_def by (rule split64_3)
  have b: "k < 64" "m < 64" "l < 64" by (simp_all add: k_def m_def l_def)
  have bh: "h < 5" using assms(2) c by linarith
  have e0: "h = 0 \<Longrightarrow> 16 \<le> k" using assms(1) c b by linarith
  have e4: "h = 4 \<Longrightarrow> k < 16" using assms(2) c b by linarith
  have oh: "(of_char (char_of (0xF0 + h) :: char) :: nat) = 0xF0 + h"
    using bh by (intro of_char_char_of_small) simp
  have ok: "(128 + k) mod 256 = 128 + k"
    using b by simp
  have ck: "cont (char_of (0x80 + k))" "cbits (char_of (0x80 + k)) = k"
    and cm: "cont (char_of (0x80 + m))" "cbits (char_of (0x80 + m)) = m"
    and cl: "cont (char_of (0x80 + l))" "cbits (char_of (0x80 + l)) = l"
    using cont_char_of b by simp_all
  have "utf8_decode (char_of (0xF0 + h) # char_of (0x80 + k) # char_of (0x80 + m)
            # char_of (0x80 + l) # r)
        = map_option ((#) (h * 262144 + k * 4096 + m * 64 + l)) (utf8_decode r)"
    unfolding utf8_decode.simps oh Let_def
    using bh e0 e4 by (simp add: ck cm cl ok)
  then show ?thesis
    unfolding h_def[symmetric] k_def[symmetric] m_def[symmetric] l_def[symmetric] using c by simp
qed

lemma utf8_decode_enc1:
  assumes "utf8_enc1 c = Some e"
  shows "utf8_decode (e @ r) = map_option ((#) c) (utf8_decode r)"
proof -
  consider (a) "c < 0x80" | (b) "0x80 \<le> c" "c < 0x800"
    | (c) "0x800 \<le> c" "c < 0x10000" | (d) "0x10000 \<le> c" "c < 0x110000" | (e) "0x110000 \<le> c"
    by linarith
  then show ?thesis
  proof cases
    case a
    with assms have "e = [char_of c]" by (simp add: utf8_enc1_def)
    then show ?thesis using utf8_dec_enc1_1 [OF a] by (simp del: utf8_decode.simps)
  next
    case b
    with assms have "e = [char_of (0xC0 + c div 64), char_of (0x80 + c mod 64)]"
      by (simp add: utf8_enc1_def)
    then show ?thesis using utf8_dec_enc1_2 [OF b] by (simp del: utf8_decode.simps)
  next
    case c
    with assms have n: "\<not> (0xD800 \<le> c \<and> c < 0xE000)"
      by (auto simp: utf8_enc1_def split: if_splits)
    with assms c have "e = [char_of (0xE0 + c div 4096), char_of (0x80 + (c div 64) mod 64),
                    char_of (0x80 + c mod 64)]"
      by (simp add: utf8_enc1_def)
    then show ?thesis using utf8_dec_enc1_3 [OF c n] by (simp del: utf8_decode.simps)
  next
    case d
    with assms have "e = [char_of (0xF0 + c div 262144), char_of (0x80 + (c div 4096) mod 64),
              char_of (0x80 + (c div 64) mod 64), char_of (0x80 + c mod 64)]"
      by (simp add: utf8_enc1_def)
    then show ?thesis using utf8_dec_enc1_4 [OF d] by (simp del: utf8_decode.simps)
  next
    case e
    with assms show ?thesis by (simp add: utf8_enc1_def)
  qed
qed

lemma utf8_decode_encode: "utf8_encode s = Some bs \<Longrightarrow> utf8_decode bs = Some s"
proof (induction s arbitrary: bs)
  case Nil
  then show ?case by simp
next
  case (Cons c s)
  from Cons.prems obtain e r where e: "utf8_enc1 c = Some e" and r: "utf8_encode s = Some r"
    and bs: "bs = e @ r"
    by (auto split: option.splits)
  show ?case
    unfolding bs utf8_decode_enc1 [OF e] using Cons.IH [OF r] by (simp del: utf8_decode.simps)
qed

subsection \<open>Splitting on the separator\<close>

lemma separator_nul: "separator = [nul, nul, nul]"
  by (simp add: separator_def nul_def)

lemma split_acc_no_nul:
  "nul \<notin> set a \<Longrightarrow> split_acc separator cur (a @ nul # rest)
     = split_acc separator (rev a @ cur) (nul # rest)"
proof (induction a arbitrary: cur)
  case Nil
  then show ?case by simp
next
  case (Cons x a)
  then have x: "x \<noteq> nul" and a: "nul \<notin> set a" by auto
  have "split_acc separator cur ((x # a) @ nul # rest)
        = split_acc separator (x # cur) (a @ nul # rest)"
    using x by (subst split_acc.simps) (simp add: separator_nul)
  then show ?case using Cons.IH [OF a] by simp
qed

lemma split_acc_no_nul_end:
  "nul \<notin> set a \<Longrightarrow> split_acc separator cur a = [rev cur @ a]"
proof (induction a arbitrary: cur)
  case Nil
  then show ?case by (subst split_acc.simps) simp
next
  case (Cons x a)
  then have x: "x \<noteq> nul" and a: "nul \<notin> set a" by auto
  have "split_acc separator cur (x # a) = split_acc separator (x # cur) a"
    using x by (subst split_acc.simps) (simp add: separator_nul)
  then show ?case using Cons.IH [OF a] by simp
qed

lemma split_frame:
  assumes "nul \<notin> set a" "nul \<notin> set b"
  shows "split_bytes separator (a @ separator @ b) = [a, b]"
proof -
  have "split_acc separator [] (a @ separator @ b)
        = split_acc separator (rev a) (separator @ b)"
    using split_acc_no_nul [OF assms(1), of "[]" "[nul, nul] @ b"]
    by (simp add: separator_nul)
  also have "\<dots> = a # split_acc separator [] b"
    by (subst split_acc.simps) (simp add: separator_nul)
  also have "\<dots> = [a, b]"
    using split_acc_no_nul_end [OF assms(2), of "[]"] by simp
  finally show ?thesis by (simp add: split_bytes_def)
qed

lemma split_acc_nonempty: "split_acc sep cur xs \<noteq> []"
proof (induction sep cur xs rule: split_acc.induct)
  case (1 sep cur xs)
  then show ?case by (subst split_acc.simps) auto
qed

lemma split_acc_one: "split_acc sep cur xs = [p] \<Longrightarrow> p = rev cur @ xs"
proof (induction sep cur xs rule: split_acc.induct)
  case (1 sep cur xs)
  show ?case
  proof (cases "xs = []")
    case True
    with "1.prems" show ?thesis by (subst (asm) split_acc.simps) simp
  next
    case False
    show ?thesis
    proof (cases "sep \<noteq> [] \<and> take (length sep) xs = sep")
      case True
      with False "1.prems" have "rev cur # split_acc sep [] (drop (length sep) xs) = [p]"
        by (subst (asm) split_acc.simps) simp
      then show ?thesis using split_acc_nonempty by simp
    next
      case F2: False
      with False "1.prems" have "split_acc sep (hd xs # cur) (tl xs) = [p]"
        by (subst (asm) split_acc.simps) auto
      from "1.IH"(2) [OF False F2 this] show ?thesis using False by simp
    qed
  qed
qed

lemma split_acc_two:
  "split_acc sep cur xs = [p, q] \<Longrightarrow>
     \<exists>a. p = rev cur @ a \<and> xs = a @ sep @ q \<and> sep \<noteq> []
        \<and> (\<forall>i<length a. take (length sep) (drop i xs) \<noteq> sep)"
proof (induction sep cur xs arbitrary: p q rule: split_acc.induct)
  case (1 sep cur xs)
  show ?case
  proof (cases "xs = []")
    case True
    with "1.prems" show ?thesis by (subst (asm) split_acc.simps) simp
  next
    case False
    show ?thesis
    proof (cases "sep \<noteq> [] \<and> take (length sep) xs = sep")
      case True
      with False "1.prems" have "rev cur # split_acc sep [] (drop (length sep) xs) = [p, q]"
        by (subst (asm) split_acc.simps) simp
      then have p: "p = rev cur" and r: "split_acc sep [] (drop (length sep) xs) = [q]"
        by simp_all
      from split_acc_one [OF r] have q: "q = drop (length sep) xs" by simp
      have "xs = take (length sep) xs @ drop (length sep) xs" by simp
      with True q have "xs = sep @ q" by simp
      with p True show ?thesis by (intro exI [of _ "[]"]) simp
    next
      case F2: False
      with False "1.prems" have "split_acc sep (hd xs # cur) (tl xs) = [p, q]"
        by (subst (asm) split_acc.simps) auto
      from "1.IH"(2) [OF False F2 this] obtain a where
        a: "p = rev (hd xs # cur) @ a" "tl xs = a @ sep @ q" "sep \<noteq> []"
          "\<forall>i<length a. take (length sep) (drop i (tl xs)) \<noteq> sep"
        by blast
      have xs: "xs = hd xs # tl xs" using False by simp
      have "\<forall>i<length (hd xs # a). take (length sep) (drop i xs) \<noteq> sep"
      proof (intro allI impI)
        fix i assume i: "i < length (hd xs # a)"
        show "take (length sep) (drop i xs) \<noteq> sep"
        proof (cases i)
          case 0
          with F2 a(3) show ?thesis by simp
        next
          case (Suc j)
          with i have "j < length a" by simp
          with a(4) have "take (length sep) (drop j (tl xs)) \<noteq> sep" by blast
          then show ?thesis using Suc by (simp add: drop_Suc)
        qed
      qed
      moreover have "p = rev cur @ (hd xs # a)" using a(1) by simp
      moreover have "xs = (hd xs # a) @ sep @ q" using xs a(2) by simp
      ultimately show ?thesis using a(3) by blast
    qed
  qed
qed

lemma split_acc_one_no_sep:
  "split_acc sep cur xs = [p] \<Longrightarrow> sep \<noteq> [] \<Longrightarrow> take (length sep) (drop i xs) \<noteq> sep"
proof (induction sep cur xs arbitrary: i rule: split_acc.induct)
  case (1 sep cur xs)
  show ?case
  proof (cases "xs = []")
    case True
    with "1.prems" show ?thesis by auto
  next
    case False
    show ?thesis
    proof (cases "sep \<noteq> [] \<and> take (length sep) xs = sep")
      case True
      with False "1.prems" have "rev cur # split_acc sep [] (drop (length sep) xs) = [p]"
        by (subst (asm) split_acc.simps) simp
      then show ?thesis using split_acc_nonempty by simp
    next
      case F2: False
      with False "1.prems" have r: "split_acc sep (hd xs # cur) (tl xs) = [p]"
        by (subst (asm) split_acc.simps) auto
      show ?thesis
      proof (cases i)
        case 0
        with F2 "1.prems"(2) show ?thesis by simp
      next
        case (Suc j)
        from "1.IH"(2) [OF False F2 r "1.prems"(2), of j] show ?thesis
          using Suc by (simp add: drop_Suc)
      qed
    qed
  qed
qed

lemma length_separator [simp]: "length separator = 3"
  by (simp add: separator_def)

lemma separator_nonempty [simp]: "separator \<noteq> []"
  by (simp add: separator_def)

lemma split_bytes_one:
  assumes "length (split_bytes separator raw) < 2"
  shows "take 3 (drop i raw) \<noteq> separator"
proof -
  from assms split_acc_nonempty [of separator "[]" raw]
  obtain p where "split_acc separator [] raw = [p]"
    unfolding split_bytes_def by (cases "split_acc separator [] raw") auto
  from split_acc_one_no_sep [OF this separator_nonempty, of i] show ?thesis by simp
qed

lemma split_bytes_two:
  assumes "split_bytes separator raw = [p, q]"
  shows "raw = p @ separator @ q \<and> (\<forall>i<length p. take 3 (drop i raw) \<noteq> separator)"
  using split_acc_two [OF assms [unfolded split_bytes_def]] by auto

section \<open>The frame\<close>

lemma hexdigit_range: "n < 16 \<Longrightarrow> 0x20 \<le> (of_char (hexdigit n) :: nat) \<and> (of_char (hexdigit n) :: nat) \<le> 0x7E"
  by (simp add: hexdigit_def)

lemma hex4_range: "c \<in> set (hex4 n) \<Longrightarrow> 0x20 \<le> (of_char c :: nat) \<and> (of_char c :: nat) \<le> 0x7E"
  unfolding hex4_def using hexdigit_range [of "n div 4096 mod 16"] hexdigit_range [of "n div 256 mod 16"]
    hexdigit_range [of "n div 16 mod 16"] hexdigit_range [of "n mod 16"]
  by auto

lemma json_escape_range:
  "c \<in> set (json_escape n) \<Longrightarrow> 0x20 \<le> (of_char c :: nat) \<and> (of_char c :: nat) \<le> 0x7E"
  unfolding json_escape_def
  by (auto split: if_splits dest: hex4_range)

lemma json_dumps_filename_range:
  "c \<in> set (json_dumps_filename name) \<Longrightarrow> 0x20 \<le> (of_char c :: nat) \<and> (of_char c :: nat) \<le> 0x7E"
  unfolding json_dumps_filename_def
  by (auto dest: json_escape_range)

lemma json_dumps_filename_no_nul: "nul \<notin> set (json_dumps_filename name)"
  using json_dumps_filename_range [of nul name] by (auto simp: nul_def)

lemma json_dumps_filename_ascii: "is_ascii (json_dumps_filename name)"
  unfolding is_ascii_def using json_dumps_filename_range by fastforce

lemma b64encode_no_nul: "nul \<notin> set (b64encode xs)"
  using b64encode_chars [of nul xs] b64char_ascii [of nul] by (auto simp: nul_def)

lemma b64encode_ascii: "is_ascii (b64encode xs)"
  unfolding is_ascii_def using b64encode_chars b64char_ascii by blast

lemma separator_ascii: "is_ascii separator"
  by (simp add: is_ascii_def separator_def)

lemma is_ascii_append: "is_ascii (a @ b) = (is_ascii a \<and> is_ascii b)"
  by (auto simp: is_ascii_def)

lemma frame_ascii: "is_ascii (frame ed (json_dumps_filename name))"
  by (simp add: frame_def is_ascii_append b64encode_ascii separator_ascii json_dumps_filename_ascii)

lemma frame_decode:
  "utf8_decode (frame ed (json_dumps_filename name))
     = Some (map of_char (frame ed (json_dumps_filename name)))"
  by (rule utf8_decode_ascii [OF frame_ascii])

lemma frame_encode:
  "utf8_encode (map of_char (frame ed (json_dumps_filename name)))
     = Some (frame ed (json_dumps_filename name))"
  by (rule utf8_encode_ascii [OF frame_ascii])

lemma frame_split:
  "split_bytes separator (frame ed (json_dumps_filename name))
     = [b64encode ed, json_dumps_filename name]"
  unfolding frame_def by (rule split_frame [OF b64encode_no_nul json_dumps_filename_no_nul])

lemma b64decode_b64encode: "b64decode (b64encode xs) = Some xs"
  by (simp add: b64decode_def b64decode_b64encode_aux)

lemma frame_nonempty: "frame ed md \<noteq> []"
  by (simp add: frame_def separator_def)

lemma length_frame:
  "length (frame ed md) = 4 * ((length ed + 2) div 3) + 3 + length md"
  by (simp add: frame_def length_b64encode separator_def)

lemma length_json_message_txt: "length (json_dumps_filename (ascii ''message.txt'')) = 27"
  by (simp add: json_dumps_filename_def ascii_def json_escape_def)

section \<open>Keys\<close>

lemma b64val_printable: "b64val c = Some v \<Longrightarrow> printable (urlsafe c)"
  unfolding b64val_def Let_def printable_def urlsafe_def
  by (auto split: if_splits)

lemma of_char_plus_slash:
  "(of_char c :: nat) = 43 \<Longrightarrow> c = CHR ''+''" "(of_char c :: nat) = 47 \<Longrightarrow> c = CHR ''/''"
  using of_char_eq_iff [of c "CHR ''+''", where ?'a = nat]
        of_char_eq_iff [of c "CHR ''/''", where ?'a = nat]
  by simp_all

lemma b64val_urlsafe_char: "b64val c = Some v \<Longrightarrow> urlsafe_char (urlsafe c)"
  unfolding b64val_def Let_def urlsafe_char_def urlsafe_def
  by (auto split: if_splits dest: of_char_plus_slash)

lemma urlsafe_b64encode_printable: "c \<in> set (urlsafe_b64encode s) \<Longrightarrow> printable c"
proof -
  assume "c \<in> set (urlsafe_b64encode s)"
  then obtain d where d: "d \<in> set (b64encode s)" and c: "c = urlsafe d"
    by (auto simp: urlsafe_b64encode_def)
  from b64encode_chars [OF d] show ?thesis
    unfolding b64char_def c
    using b64val_printable [of d] by (auto simp: printable_def urlsafe_def)
qed

lemma urlsafe_b64encode_alphabet: "c \<in> set (urlsafe_b64encode s) \<Longrightarrow> urlsafe_char c"
proof -
  assume "c \<in> set (urlsafe_b64encode s)"
  then obtain d where d: "d \<in> set (b64encode s)" and c: "c = urlsafe d"
    by (auto simp: urlsafe_b64encode_def)
  from b64encode_chars [OF d] show ?thesis
    unfolding b64char_def c
    using b64val_urlsafe_char [of d] by (auto simp: urlsafe_char_def urlsafe_def)
qed

lemma length_urlsafe_b64encode: "length s = 32 \<Longrightarrow> length (urlsafe_b64encode s) = 44"
  by (simp add: urlsafe_b64encode_def length_b64encode)

lemma generate_key_nonempty:
  "user_key \<noteq> [] \<Longrightarrow>
   snd (generate_key L rnd (Some user_key) w)
     = map_option (\<lambda>b. urlsafe_b64encode (sha256 L b)) (utf8_encode user_key)"
  by (cases user_key) (auto simp: generate_key_def split: option.splits)

lemma generate_key_falsy:
  "snd (generate_key L rnd None w) = Some (urlsafe_b64encode rnd)"
  "snd (generate_key L rnd (Some []) w) = Some (urlsafe_b64encode rnd)"
  by (simp_all add: generate_key_def)

lemma hd_urlsafe_b64encode:
  "hd (urlsafe_b64encode (a # b # c # r)) = urlsafe (b64chr (of_char a div 4))"
  by (simp add: urlsafe_b64encode_def Let_def)

section \<open>\<open>encode\<close>, step by step\<close>

lemma ensure_png_ok:
  "endswith (map lower_cp image_path) (ascii ''.png'') \<Longrightarrow> ensure_png image_path w = (w, True)"
  by (simp add: ensure_png_def)

lemma generate_key_some:
  "user_key \<noteq> [] \<Longrightarrow> utf8_encode user_key = Some b \<Longrightarrow>
   generate_key L rnd (Some user_key) w
     = (logging Info_key_from_user w, Some (urlsafe_b64encode (sha256 L b)))"
  by (cases user_key) (auto simp: generate_key_def)

lemma fs_logging [simp]: "fs (logging e w) = fs w"
  by (simp add: logging_def)

lemma fs_print [simp]: "fs (print m w) = fs w"
  by (simp add: print_def)

lemma fs_generate_key [simp]: "fs (fst (generate_key L rnd user_key w)) = fs w"
  by (auto simp: generate_key_def split: option.splits list.splits)

lemma isfile_fs: "fs w' = fs w \<Longrightarrow> isfile w' p = isfile w p"
  by (simp add: isfile_def)

lemma encode_text_payload:
  assumes png: "endswith (map lower_cp image_path) (ascii ''.png'')"
    and key: "generate_key L rnd user_key w = (w1, Some key)" "key \<noteq> []"
    and nofile: "\<not> isfile w input_data"
    and enc: "utf8_encode input_data = Some file_data"
  shows "encode L rnd nonce image_path input_data output_path user_key w
     = embed_payload L nonce image_path output_path key (ascii ''message.txt'') file_data
         (logging (Info_key_for_encoding key) w1)"
proof -
  obtain k ks where k: "key = k # ks" using key(2) by (cases key) auto
  have "fs w1 = fs w" using fs_generate_key [of L rnd user_key w] key(1) by simp
  then have "\<not> isfile (logging (Info_key_for_encoding key) w1) input_data"
    using nofile by (simp add: isfile_def)
  then show ?thesis
    using key(1) enc unfolding encode_def ensure_png_ok [OF png] k
    by (simp add: Let_def)
qed

lemma encode_file_payload:
  assumes png: "endswith (map lower_cp image_path) (ascii ''.png'')"
    and key: "generate_key L rnd user_key w = (w1, Some key)" "key \<noteq> []"
    and isf: "isfile w input_data" "fs w input_data = Some file_data"
  shows "encode L rnd nonce image_path input_data output_path user_key w
     = embed_payload L nonce image_path output_path key (basename input_data) file_data
         (logging (Info_key_for_encoding key) w1)"
proof -
  obtain k ks where k: "key = k # ks" using key(2) by (cases key) auto
  have f: "fs w1 = fs w" using fs_generate_key [of L rnd user_key w] key(1) by simp
  then have "isfile (logging (Info_key_for_encoding key) w1) input_data"
    using isf(1) by (simp add: isfile_def)
  then show ?thesis
    using key(1) isf(2) f unfolding encode_def ensure_png_ok [OF png] k
    by (simp add: Let_def)
qed

lemma embed_payload_ok:
  assumes "fernet_encrypt L key nonce data = Some token"
    and "fs w image_path = Some file" "image_open L file = Some img"
  shows "embed_payload L nonce image_path output_path key name data w
     = check_and_embed L img (Some token) (json_dumps_filename name) output_path key
         (logging Info_encrypted w)"
  using assms by (simp add: embed_payload_def encrypt_def Let_def)

lemma check_and_embed_fits:
  "message_size token metadata \<le> max_message_size L img \<Longrightarrow>
   check_and_embed L img (Some token) metadata output_path key w
     = (hide_and_save L img token metadata output_path key
          (print (Message_size (message_size token metadata)) w), None)"
  by (simp add: check_and_embed_def)

lemma check_and_embed_too_large:
  "max_message_size L img < message_size token metadata \<Longrightarrow>
   check_and_embed L img (Some token) metadata output_path key w
     = (print (Too_large (message_size token metadata) (max_message_size L img)) w, None)"
  by (simp add: check_and_embed_def)

lemma hide_and_save_ok:
  assumes "lsb_hide L img (map of_char (frame token (json_dumps_filename name))) = Some simg"
    and "image_save L simg output_path = Some file"
  shows "hide_and_save L img token (json_dumps_filename name) output_path key w
     = print (Encryption_key key) (print Encoded_ok (w\<lparr>fs := (fs w)(output_path \<mapsto> file)\<rparr>))"
  using assms by (simp add: hide_and_save_def frame_decode)

lemma hide_and_save_hide_fails:
  assumes "lsb_hide L img (map of_char (frame token (json_dumps_filename name))) = None"
  shows "hide_and_save L img token (json_dumps_filename name) output_path key w
     = logging Error_encoding w"
  using assms by (simp add: hide_and_save_def frame_decode)

lemma utf8_encode_ascii_str: "is_ascii s \<Longrightarrow> utf8_encode (ascii s) = Some s"
  unfolding ascii_def by (rule utf8_encode_ascii)

lemma toy_simps [simp]:
  "sha256 toy = toy_sha256" "fernet_encrypt toy = toy_encrypt" "fernet_decrypt toy = toy_decrypt"
  "image_open toy = toy_open" "image_width toy = fst" "image_height toy = (\<lambda>i. fst (snd i))"
  "image_save toy = toy_save" "lsb_hide toy = toy_hide" "lsb_reveal toy = toy_reveal"
  "json_loads toy = toy_json_loads"
  by (simp_all add: toy_def)

lemma length_toy_sha256 [simp]: "length (toy_sha256 b) = 32"
  by (simp add: toy_sha256_def)

lemma length_toy_key [simp]: "length (urlsafe_b64encode (toy_sha256 b)) = 44"
  by (simp add: length_urlsafe_b64encode)

section \<open>\<open>decode\<close>, step by step\<close>

lemma reveal_ok:
  "fs w image_path = Some file \<Longrightarrow> image_open L file = Some img \<Longrightarrow> lsb_reveal L img = Some r
   \<Longrightarrow> reveal L w image_path = Inr r"
  by (simp add: reveal_def)

lemma decrypt_eq:
  "decrypt L token key w
     = (logging (case fernet_decrypt L key token of None \<Rightarrow> Error_decrypting
                 | Some d \<Rightarrow> Info_decrypted) w, fernet_decrypt L key token)"
  by (simp add: decrypt_def split: option.splits)

lemma decode_message_frame:
  assumes "json_loads L (json_dumps_filename name) = Some j" and "get_filename j = Inr name"
  shows "decode_message L key (map of_char (frame token (json_dumps_filename name)))
           suppress_output output_file from_bruteforce w
     = deliver name (fernet_decrypt L key token) suppress_output output_file from_bruteforce
         (logging (case fernet_decrypt L key token of None \<Rightarrow> Error_decrypting
                   | Some d \<Rightarrow> Info_decrypted) w)"
  using assms
  by (simp add: decode_message_def decode_parts_def frame_encode frame_split Let_def
        b64decode_b64encode decrypt_eq)

lemma decode_reaches_message:
  assumes png: "endswith (map lower_cp image_path) (ascii ''.png'')"
    and key: "generate_key L rnd user_key w = (w1, Some key)" "key \<noteq> []"
    and img: "fs w image_path = Some file" "image_open L file = Some img"
      "lsb_reveal L img = Some (Some message)" "message \<noteq> []"
  shows "decode L rnd image_path user_key suppress_output output_file from_bruteforce w
     = (case decode_message L key message suppress_output output_file from_bruteforce w1 of
          (w2, Inl e) \<Rightarrow> (logging (Error_decoding_failed e) w2, None)
        | (w2, Inr r) \<Rightarrow> (w2, r))"
proof -
  obtain k ks where k: "key = k # ks" using key(2) by (cases key) auto
  obtain c cs where m: "message = c # cs" using img(4) by (cases message) auto
  have "fs w1 = fs w" using fs_generate_key [of L rnd user_key w] key(1) by simp
  then have "reveal L w1 image_path = Inr (Some message)"
    using img(1-3) by (simp add: reveal_ok)
  then show ?thesis
    using key(1) unfolding decode_def ensure_png_ok [OF png] k m
    by simp
qed

lemma decode_frame:
  assumes png: "endswith (map lower_cp image_path) (ascii ''.png'')"
    and key: "generate_key L rnd user_key w = (w1, Some key)" "key \<noteq> []"
    and img: "fs w image_path = Some file" "image_open L file = Some img"
      "lsb_reveal L img = Some (Some (map of_char (frame token (json_dumps_filename name))))"
    and js: "json_loads L (json_dumps_filename name) = Some j" "get_filename j = Inr name"
  shows "decode L rnd image_path user_key suppress_output output_file from_bruteforce w
     = (case deliver name (fernet_decrypt L key token) suppress_output output_file
               from_bruteforce
               (logging (case fernet_decrypt L key token of None \<Rightarrow> Error_decrypting
                         | Some d \<Rightarrow> Info_decrypted) w1) of
          (w2, Inl e) \<Rightarrow> (logging (Error_decoding_failed e) w2, None)
        | (w2, Inr r) \<Rightarrow> (w2, r))"
proof -
  have ne: "map of_char (frame token (json_dumps_filename name)) \<noteq> ([] :: ustr)"
    using frame_nonempty [of token "json_dumps_filename name"] by simp
  show ?thesis
    unfolding decode_reaches_message [OF png key img ne] decode_message_frame [OF js]
    by simp
qed

lemma deliver_text:
  "utf8_decode data = Some s \<Longrightarrow>
   deliver (ascii ''message.txt'') (Some data) suppress_output output_file from_bruteforce w
     = ((if \<not> suppress_output then print (Decoded_message s) w else w), Inr (Some s))"
  by (simp add: deliver_def)

lemma deliver_text_undecodable:
  "utf8_decode data = None \<Longrightarrow>
   deliver (ascii ''message.txt'') (Some data) suppress_output output_file from_bruteforce w
     = (w, Inl UnicodeDecodeError)"
  by (simp add: deliver_def)

lemma deliver_text_no_data:
  "deliver (ascii ''message.txt'') None suppress_output output_file from_bruteforce w
     = (w, Inl AttributeError)"
  by (simp add: deliver_def)

lemma deliver_file:
  assumes "name \<noteq> ascii ''message.txt''" and "open_wb name w \<noteq> None"
  shows "deliver name (Some data) suppress_output None from_bruteforce w
     = ((if \<not> from_bruteforce then print (Saved_to name) (w\<lparr>fs := (fs w)(name \<mapsto> data)\<rparr>)
         else w\<lparr>fs := (fs w)(name \<mapsto> data)\<rparr>), Inr (Some name))"
  using assms by (auto simp: deliver_def open_wb_def Let_def split: if_splits)

lemma deliver_file_no_data:
  assumes "name \<noteq> ascii ''message.txt''" and "open_wb name w \<noteq> None"
  shows "deliver name None suppress_output None from_bruteforce w
     = (w\<lparr>fs := (fs w)(name \<mapsto> [])\<rparr>, Inl TypeError)"
  using assms by (auto simp: deliver_def open_wb_def Let_def split: if_splits)

lemma basename_writable:
  assumes "isfile w p"
  shows "open_wb (basename p) w' \<noteq> None"
proof -
  from assms have p: "p \<noteq> []" "last p \<noteq> 0x2F" "0 \<notin> set p" by (auto simp: isfile_def)
  then have "rev p \<noteq> []" "hd (rev p) \<noteq> 0x2F" by (auto simp: hd_rev)
  then have t: "takeWhile (\<lambda>c. c \<noteq> 0x2F) (rev p) \<noteq> []" by (cases "rev p") auto
  then have "last (basename p) \<noteq> 0x2F"
    unfolding basename_def
    by (metis (mono_tags, lifting) hd_in_set hd_rev rev_is_Nil_conv rev_rev_ident set_takeWhileD)
  moreover have "basename p \<noteq> []" using t by (simp add: basename_def)
  moreover have "0 \<notin> set (basename p)"
    using p(3) by (auto simp: basename_def dest: set_takeWhileD)
  ultimately show ?thesis by (simp add: open_wb_def)
qed

lemma decode_message_cases:
  assumes "utf8_encode message = Some raw"
  shows "decode_message L key message suppress_output output_file from_bruteforce w
     = (if length (split_bytes separator raw) < 2 then (print Corrupted_format w, Inr None)
        else if length (split_bytes separator raw) > 2 then (w, Inl ValueError)
        else decode_parts L key (split_bytes separator raw ! 0) (split_bytes separator raw ! 1)
               suppress_output output_file from_bruteforce w)"
  using assms
  by (auto simp: decode_message_def Let_def split: list.splits)

section \<open>The small instance, step by step\<close>

lemma embed_payload_success:
  assumes "fernet_encrypt L key nonce data = Some token"
    and "fs w image_path = Some file" "image_open L file = Some img"
    and "message_size token (json_dumps_filename name) \<le> max_message_size L img"
    and "lsb_hide L img (map of_char (frame token (json_dumps_filename name))) = Some simg"
    and "image_save L simg output_path = Some file'"
  shows "embed_payload L nonce image_path output_path key name data w
     = (print (Encryption_key key) (print Encoded_ok
          ((print (Message_size (message_size token (json_dumps_filename name)))
              (logging Info_encrypted w))
             \<lparr>fs := (fs w)(output_path \<mapsto> file')\<rparr>)), None)"
  unfolding embed_payload_ok [OF assms(1-3)] check_and_embed_fits [OF assms(4)]
    hide_and_save_ok [OF assms(5,6)]
  by simp

lemma toy_encrypt_key:
  "fernet_encrypt toy (urlsafe_b64encode (toy_sha256 p)) nonce data
     = Some (urlsafe_b64encode (toy_sha256 p) @ data)"
  by (simp add: toy_encrypt_def)

lemma toy_decrypt_same:
  "fernet_decrypt toy (urlsafe_b64encode (toy_sha256 p)) (urlsafe_b64encode (toy_sha256 p) @ data)
     = Some data"
  by (simp add: toy_decrypt_def)

lemma toy_decrypt_other:
  "urlsafe_b64encode (toy_sha256 p) \<noteq> urlsafe_b64encode (toy_sha256 q) \<Longrightarrow>
   fernet_decrypt toy (urlsafe_b64encode (toy_sha256 q)) (urlsafe_b64encode (toy_sha256 p) @ data)
     = None"
  by (simp add: toy_decrypt_def)

lemma toy_hide_frame:
  "length (frame token metadata) \<le> W * H * 3 div 8 \<Longrightarrow>
   lsb_hide toy (W, H, t) (map of_char (frame token metadata))
     = Some (W, H, map of_char (frame token metadata))"
  using frame_nonempty [of token metadata] by (simp add: toy_hide_def)

lemma toy_save_frame:
  "image_save toy (W, H, map of_char (frame token (json_dumps_filename name))) path
     = Some (char_of W # char_of H # frame token (json_dumps_filename name))"
  by (simp add: toy_save_def frame_encode)

lemma toy_open_frame:
  "W < 256 \<Longrightarrow> H < 256 \<Longrightarrow>
   image_open toy (char_of W # char_of H # frame token (json_dumps_filename name))
     = Some (W, H, map of_char (frame token (json_dumps_filename name)))"
  by (simp add: toy_open_def frame_decode)

lemma toy_open_blank:
  "W < 256 \<Longrightarrow> H < 256 \<Longrightarrow> image_open toy [char_of W, char_of H] = Some (W, H, [])"
  by (simp add: toy_open_def)

lemma toy_reveal_frame:
  "lsb_reveal toy (W, H, map of_char (frame token metadata))
     = Some (Some (map of_char (frame token metadata)))"
  using frame_nonempty [of token metadata] by (simp add: toy_reveal_def)

lemma toy_sha256_3: "toy_sha256 (a # b # c # r) = a # b # c # take 29 (r @ replicate 32 (CHR ''#''))"
  by (simp add: toy_sha256_def)

lemma toy_key_hd:
  "hd (urlsafe_b64encode (toy_sha256 (a # b # c # r))) = urlsafe (b64chr (of_char a div 4))"
  unfolding toy_sha256_3 by (rule hd_urlsafe_b64encode)

lemma toy_key_hunter2_letmein:
  "urlsafe_b64encode (toy_sha256 ''hunter2'') \<noteq> urlsafe_b64encode (toy_sha256 ''letmein'')"
proof -
  have "hd (urlsafe_b64encode (toy_sha256 ''hunter2''))
        \<noteq> hd (urlsafe_b64encode (toy_sha256 ''letmein''))"
    unfolding toy_key_hd
    by (simp add: b64chr_def urlsafe_def char_of_eq_iff take_bit_eq_mod)
  then show ?thesis by metis
qed

lemma toy_generate_key:
  "is_ascii p \<Longrightarrow> p \<noteq> [] \<Longrightarrow>
   generate_key toy rnd (Some (ascii p)) w
     = (logging Info_key_from_user w, Some (urlsafe_b64encode (toy_sha256 p)))"
  using generate_key_some [of "ascii p" p toy rnd w]
  by (simp add: utf8_encode_ascii_str) (simp add: ascii_def)

lemma toy_key_nonempty: "urlsafe_b64encode (toy_sha256 p) \<noteq> []"
  using length_toy_key [of p] by (metis length_0_conv zero_neq_numeral)

lemma is_png_ascii [simp]:
  "endswith (map lower_cp (ascii ''a.png'')) (ascii ''.png'')"
  "endswith (map lower_cp (ascii ''out.png'')) (ascii ''.png'')"
  by (simp_all add: endswith_def ascii_def lower_cp_def)

lemma toy_json_secret_bin:
  "json_loads toy (json_dumps_filename (ascii ''secret.bin''))
     = Some (JObject [(ascii ''filename'', JString (ascii ''secret.bin''))])"
  by (simp add: toy_json_loads_def json_dumps_filename_def ascii_def json_escape_def)

lemma toy_json_message_txt:
  "json_loads toy (json_dumps_filename (ascii ''message.txt''))
     = Some (JObject [(ascii ''filename'', JString (ascii ''message.txt''))])"
  by (simp add: toy_json_loads_def)

lemma get_filename_object:
  "get_filename (JObject [(ascii ''filename'', JString name)]) = Inr name"
  by (simp add: get_filename_def)

lemma length_json_secret_bin: "length (json_dumps_filename (ascii ''secret.bin'')) = 26"
  by (simp add: json_dumps_filename_def ascii_def json_escape_def)

lemma basename_plain: "0x2F \<notin> set p \<Longrightarrow> basename p = p"
  unfolding basename_def by (subst takeWhile_eq_all_conv [THEN iffD2]) auto

lemma toy_open_ascii:
  "W < 256 \<Longrightarrow> H < 256 \<Longrightarrow> is_ascii raw \<Longrightarrow>
   image_open toy (char_of W # char_of H # raw) = Some (W, H, map of_char raw)"
  by (simp add: toy_open_def utf8_decode_ascii)

lemma toy_reveal_text:
  "t \<noteq> [] \<Longrightarrow> lsb_reveal toy (W, H, t) = Some (Some t)"
  by (simp add: toy_reveal_def)

lemma eq_nul_iff [simp]:
  "(c = char_of (0::nat)) = ((of_char c :: nat) = 0)"
  "(char_of (0::nat) = c) = ((of_char c :: nat) = 0)"
  using char_of_eq_iff [of "0::nat" c] by auto

lemma split_three:
  "split_bytes separator (''a'' @ separator @ ''b'' @ separator @ ''c'') = [''a'', ''b'', ''c'']"
  by (simp add: split_bytes_def split_acc.simps separator_def)

lemma split_one: "split_bytes separator ''abc'' = [''abc'']"
  by (simp add: split_bytes_def split_acc.simps separator_def)

lemma split_two:
  "split_bytes separator (''a'' @ separator @ nul # ''b'') = [''a'', nul # ''b'']"
  by (simp add: split_bytes_def split_acc.simps separator_def nul_def)

section \<open>\<open>encode\<close>, then \<open>decode\<close>\<close>

lemma encode_payload:
  assumes png: "endswith (map lower_cp image_path) (ascii ''.png'')"
    and key: "generate_key L rnd user_key w = (w1, Some key)" "key \<noteq> []"
    and pl: "payload w input_data = Some (name, data)"
  shows "encode L rnd nonce image_path input_data output_path user_key w
     = embed_payload L nonce image_path output_path key name data
         (logging (Info_key_for_encoding key) w1)"
proof (cases "isfile w input_data")
  case True
  with pl have "fs w input_data = Some data" "name = basename input_data"
    by (auto simp: payload_def)
  then show ?thesis using encode_file_payload [OF png key True] by simp
next
  case False
  with pl have "utf8_encode input_data = Some data" "name = ascii ''message.txt''"
    by (auto simp: payload_def)
  then show ?thesis using encode_text_payload [OF png key False] by simp
qed

lemma fs_of_generate_key:
  "generate_key L rnd user_key w = (w1, k) \<Longrightarrow> fs w1 = fs w"
  using fs_generate_key [of L rnd user_key w] by simp

lemma encode_success:
  assumes png: "endswith (map lower_cp image_path) (ascii ''.png'')"
    and key: "generate_key L rnd user_key w = (w1, Some key)" "key \<noteq> []"
    and pl: "payload w input_data = Some (name, data)"
    and enc: "fernet_encrypt L key nonce data = Some token"
    and img: "fs w image_path = Some file" "image_open L file = Some img"
    and fits: "message_size token (json_dumps_filename name) \<le> max_message_size L img"
    and hide: "lsb_hide L img (map of_char (frame token (json_dumps_filename name))) = Some simg"
    and save: "image_save L simg output_path = Some file'"
  shows "encode L rnd nonce image_path input_data output_path user_key w
     = (print (Encryption_key key) (print Encoded_ok
          ((print (Message_size (message_size token (json_dumps_filename name)))
              (logging Info_encrypted (logging (Info_key_for_encoding key) w1)))
             \<lparr>fs := (fs w)(output_path \<mapsto> file')\<rparr>)), None)"
proof -
  have f: "fs (logging (Info_key_for_encoding key) w1) image_path = Some file"
    using img(1) fs_of_generate_key [OF key(1)] by simp
  show ?thesis
    unfolding encode_payload [OF png key pl]
      embed_payload_success [OF enc f img(2) fits hide save]
    using fs_of_generate_key [OF key(1)] by simp
qed

lemma encode_success_fs:
  assumes png: "endswith (map lower_cp image_path) (ascii ''.png'')"
    and key: "generate_key L rnd user_key w = (w1, Some key)" "key \<noteq> []"
    and pl: "payload w input_data = Some (name, data)"
    and enc: "fernet_encrypt L key nonce data = Some token"
    and img: "fs w image_path = Some file" "image_open L file = Some img"
    and fits: "message_size token (json_dumps_filename name) \<le> max_message_size L img"
    and hide: "lsb_hide L img (map of_char (frame token (json_dumps_filename name))) = Some simg"
    and save: "image_save L simg output_path = Some file'"
  shows "fs (fst (encode L rnd nonce image_path input_data output_path user_key w))
     = (fs w)(output_path \<mapsto> file')"
  unfolding encode_success [OF assms] by simp

lemma deliver_no_data:
  "\<exists>w' e. deliver name None suppress_output output_file from_bruteforce w = (w', Inl e)
     \<and> out w' = out w \<and> log w' = log w"
  by (auto simp: deliver_def open_wb_def Let_def split: option.splits list.splits)

lemma decode_frame_no_plaintext:
  assumes png: "endswith (map lower_cp image_path) (ascii ''.png'')"
    and key: "generate_key L rnd user_key w = (w1, Some key)" "key \<noteq> []"
    and img: "fs w image_path = Some file" "image_open L file = Some img"
      "lsb_reveal L img = Some (Some (map of_char (frame token (json_dumps_filename name))))"
    and js: "json_loads L (json_dumps_filename name) = Some j" "get_filename j = Inr name"
    and rej: "fernet_decrypt L key token = None"
  shows "\<exists>e. snd (decode L rnd image_path user_key suppress_output output_file from_bruteforce w)
           = None
     \<and> out (fst (decode L rnd image_path user_key suppress_output output_file from_bruteforce w))
           = out w1
     \<and> log (fst (decode L rnd image_path user_key suppress_output output_file from_bruteforce w))
           = log w1 @ [Error_decrypting, Error_decoding_failed e]"
proof -
  obtain w' e where d: "deliver name None suppress_output output_file from_bruteforce
      (logging Error_decrypting w1) = (w', Inl e)"
      "out w' = out (logging Error_decrypting w1)" "log w' = log (logging Error_decrypting w1)"
    using deliver_no_data by blast
  show ?thesis
    unfolding decode_frame [OF png key img js] rej
    using d by (auto simp: logging_def)
qed

lemma decode_no_key:
  assumes png: "endswith (map lower_cp image_path) (ascii ''.png'')"
    and key: "generate_key L rnd user_key w = (w1, k)" "k = None \<or> k = Some []"
  shows "decode L rnd image_path user_key suppress_output output_file from_bruteforce w
     = (print Invalid_key w1, None)"
  using key unfolding decode_def ensure_png_ok [OF png] by auto

lemma urlsafe_inj: "b64char c \<Longrightarrow> b64char d \<Longrightarrow> urlsafe c = urlsafe d \<Longrightarrow> c = d"
  unfolding b64char_def urlsafe_def b64val_def Let_def
  by (auto split: if_splits)

lemma urlsafe_b64encode_inj:
  assumes "urlsafe_b64encode a = urlsafe_b64encode b"
  shows "a = b"
proof -
  have "inj_on urlsafe (set (b64encode a) \<union> set (b64encode b))"
    by (rule inj_onI) (auto dest: b64encode_chars intro: urlsafe_inj)
  with assms have "b64encode a = b64encode b"
    unfolding urlsafe_b64encode_def by (rule map_inj_on)
  then have "b64decode (b64encode a) = b64decode (b64encode b)" by simp
  then show ?thesis by (simp add: b64decode_b64encode)
qed

lemma generate_key_differ:
  assumes "K1 \<noteq> []" "K2 \<noteq> []" "utf8_encode K1 = Some b1" "utf8_encode K2 = Some b2"
    and "sha256 L b1 \<noteq> sha256 L b2"
  shows "snd (generate_key L rnd (Some K1) w) \<noteq> snd (generate_key L rnd' (Some K2) w')"
  using assms urlsafe_b64encode_inj by (auto simp: generate_key_nonempty)

lemma toy_decrypt_rejects:
  "key2 \<noteq> urlsafe_b64encode (toy_sha256 p) \<Longrightarrow>
   fernet_decrypt toy key2 (urlsafe_b64encode (toy_sha256 p) @ data) = None"
  by (auto simp: toy_decrypt_def)

lemma payload_text_hi:
  "fs w (ascii ''hi'') = None \<Longrightarrow> payload w (ascii ''hi'') = Some (ascii ''message.txt'', ''hi'')"
  by (simp add: payload_def isfile_def utf8_encode_ascii_str is_ascii_def)

lemma encode_decode_same_key:
  assumes png_in: "endswith (map lower_cp image_path) (ascii ''.png'')"
    and png_out: "endswith (map lower_cp output_path) (ascii ''.png'')"
    and key1: "generate_key L rnd user_key w = (wk1, Some key)" "key \<noteq> []"
    and pl: "payload w input_data = Some (name, data)"
    and enc: "fernet_encrypt L key nonce data = Some token"
    and img: "fs w image_path = Some file" "image_open L file = Some img"
    and fits: "message_size token (json_dumps_filename name) \<le> max_message_size L img"
    and hide: "lsb_hide L img (map of_char (frame token (json_dumps_filename name))) = Some simg"
    and save: "image_save L simg output_path = Some file'"
    and reopen: "image_open L file' = Some simg'"
      "lsb_reveal L simg' = Some (Some (map of_char (frame token (json_dumps_filename name))))"
    and js: "json_loads L (json_dumps_filename name) = Some j" "get_filename j = Inr name"
    and w1: "w1 = fst (encode L rnd nonce image_path input_data output_path user_key w)"
    and key2: "generate_key L rnd' user_key' w1 = (wk2, Some key)"
    and fernet: "fernet_decrypt L key token = Some data"
  shows "decode L rnd' output_path user_key' suppress_output output_file from_bruteforce w1
     = (case deliver name (Some data) suppress_output output_file from_bruteforce
               (logging Info_decrypted wk2) of
          (w2, Inl e) \<Rightarrow> (logging (Error_decoding_failed e) w2, None)
        | (w2, Inr r) \<Rightarrow> (w2, r))"
proof -
  have f: "fs w1 output_path = Some file'"
    unfolding w1 encode_success_fs [OF png_in key1 pl enc img fits hide save] by simp
  show ?thesis
    unfolding decode_frame [OF png_out key2 key1(2) f reopen js] fernet by simp
qed

lemma payload_file:
  "isfile w input_data \<Longrightarrow> fs w input_data = Some data \<Longrightarrow>
   payload w input_data = Some (basename input_data, data)"
  by (simp add: payload_def)

lemma payload_text:
  "\<not> isfile w input_data \<Longrightarrow> utf8_encode input_data = Some data \<Longrightarrow>
   payload w input_data = Some (ascii ''message.txt'', data)"
  by (simp add: payload_def)

lemma encode_depends_on_payload:
  assumes "payload w a = payload w b" "payload w a \<noteq> None"
  shows "encode L rnd nonce image_path a output_path user_key w
       = encode L rnd nonce image_path b output_path user_key w"
proof (cases "ensure_png image_path w")
  case (Pair w0 ok)
  show ?thesis
  proof (cases ok)
    case False
    with Pair show ?thesis by (simp add: encode_def)
  next
    case True
    then have png: "endswith (map lower_cp image_path) (ascii ''.png'')" and w0: "w0 = w"
      using Pair by (auto simp: ensure_png_def split: if_splits)
    obtain w1 k where g: "generate_key L rnd user_key w = (w1, k)" by (cases "generate_key L rnd user_key w")
    show ?thesis
    proof (cases "k = None \<or> k = Some []")
      case True
      then show ?thesis using g unfolding encode_def ensure_png_ok [OF png] by auto
    next
      case False
      then obtain key where k: "k = Some key" "key \<noteq> []" by auto
      obtain name data where p: "payload w a = Some (name, data)" using assms(2) by auto
      then have q: "payload w b = Some (name, data)" using assms(1) by simp
      show ?thesis
        unfolding encode_payload [OF png g [unfolded k(1)] k(2) p]
          encode_payload [OF png g [unfolded k(1)] k(2) q] ..
    qed
  qed
qed

lemma urlsafe_b64encode_nonempty: "length raw = 32 \<Longrightarrow> urlsafe_b64encode raw \<noteq> []"
  using length_urlsafe_b64encode [of raw] by auto

lemma generate_key_digest:
  assumes "K \<noteq> []" "utf8_encode K = Some kb"
  shows "generate_key L rnd (Some K) w
     = (logging Info_key_from_user w, Some (urlsafe_b64encode (sha256 L kb)))"
  using generate_key_some [OF assms] .

lemma deliver_file_default:
  assumes "name \<noteq> ascii ''message.txt''" and "open_wb name w \<noteq> None"
  shows "deliver name (Some data) suppress_output None from_bruteforce w
     = ((if from_bruteforce then w\<lparr>fs := (fs w)(name \<mapsto> data)\<rparr>
         else print (Saved_to name) (w\<lparr>fs := (fs w)(name \<mapsto> data)\<rparr>)), Inr (Some name))"
  using deliver_file [OF assms] by simp

lemma toy_encrypt_len:
  "length key = 44 \<Longrightarrow> fernet_encrypt toy key nonce data = Some (key @ data)"
  by (simp add: toy_encrypt_def)

lemma toy_decrypt_len:
  "length key = 44 \<Longrightarrow> fernet_decrypt toy key (key @ data) = Some data"
  by (simp add: toy_decrypt_def)

lemma toy_decrypt_rejects_len:
  "length key = 44 \<Longrightarrow> key2 \<noteq> key \<Longrightarrow> fernet_decrypt toy key2 (key @ data) = None"
  by (auto simp: toy_decrypt_def)

section \<open>Three runs of \<open>encode\<close> and \<open>decode\<close> on the small instance\<close>

lemma round_trip_empty_passphrase:
  "let w0 = world0\<lparr>fs := [ascii ''a.png'' \<mapsto> [char_of (40::nat), char_of (40::nat)]]\<rparr>;
       w1 = fst (encode toy ''AAAAAAAAAAAAAAAAAAAAAAAAAAAAAAAA'' [] (ascii ''a.png'') (ascii ''hi'')
                   (ascii ''out.png'') (Some []) w0);
       r = decode toy ''aaaaaaaaaaaaaaaaaaaaaaaaaaaaaaaa'' (ascii ''out.png'') (Some []) False None
             False w1
   in fs w1 (ascii ''out.png'')
        = Some (char_of (40::nat) # char_of (40::nat)
                 # frame (urlsafe_b64encode ''AAAAAAAAAAAAAAAAAAAAAAAAAAAAAAAA'' @ ''hi'')
                     (json_dumps_filename (ascii ''message.txt'')))
      \<and> snd r = None"
proof -
  define w0 where "w0 = world0\<lparr>fs := [ascii ''a.png'' \<mapsto> [char_of (40::nat), char_of (40::nat)]]\<rparr>"
  define key where "key = urlsafe_b64encode ''AAAAAAAAAAAAAAAAAAAAAAAAAAAAAAAA''"
  define token where "token = key @ ''hi''"
  define md where "md = json_dumps_filename (ascii ''message.txt'')"
  define file' where "file' = char_of (40::nat) # char_of (40::nat) # frame token md"
  define w1 where "w1 = fst (encode toy ''AAAAAAAAAAAAAAAAAAAAAAAAAAAAAAAA'' [] (ascii ''a.png'') (ascii ''hi'')
                   (ascii ''out.png'') (Some []) w0)"
  have lk: "length key = 44" by (simp add: key_def length_urlsafe_b64encode)
  have im: "fs w0 (ascii ''a.png'') = Some [char_of (40::nat), char_of (40::nat)]"
    by (simp add: w0_def ascii_def)
  have pl: "payload w0 (ascii ''hi'') = Some (ascii ''message.txt'', ''hi'')"
    by (rule payload_text_hi) (simp add: w0_def ascii_def)
  have gk: "generate_key toy ''AAAAAAAAAAAAAAAAAAAAAAAAAAAAAAAA'' (Some []) w0
            = (logging Info_key_random w0, Some key)"
    by (simp add: generate_key_def key_def)
  have kne: "key \<noteq> []" using lk by auto
  have enc: "fernet_encrypt toy key [] ''hi'' = Some token"
    unfolding token_def by (rule toy_encrypt_len [OF lk])
  have op: "image_open toy [char_of (40::nat), char_of (40::nat)] = Some (40, 40, [])"
    by (rule toy_open_blank) simp_all
  have lf: "length (frame token md) \<le> 600"
    by (simp add: length_frame token_def lk md_def length_json_message_txt)
  have ms: "message_size token md \<le> max_message_size toy (40, 40, [])"
    by (simp add: message_size_def max_message_size_def token_def lk md_def length_json_message_txt)
  have hide: "lsb_hide toy (40, 40, []) (map of_char (frame token md))
              = Some (40, 40, map of_char (frame token md))"
    by (rule toy_hide_frame) (use lf in simp)
  have save: "image_save toy (40, 40, map of_char (frame token md)) (ascii ''out.png'')
              = Some file'"
    unfolding md_def file'_def by (rule toy_save_frame)
  have reopen: "image_open toy file' = Some (40, 40, map of_char (frame token md))"
    unfolding md_def file'_def by (rule toy_open_frame) simp_all
  have rev: "lsb_reveal toy (40, 40, map of_char (frame token md))
             = Some (Some (map of_char (frame token md)))"
    by (rule toy_reveal_frame)
  have js: "json_loads toy md = Some (JObject [(ascii ''filename'', JString (ascii ''message.txt''))])"
    unfolding md_def by (rule toy_json_message_txt)
  have gf: "get_filename (JObject [(ascii ''filename'', JString (ascii ''message.txt''))]) = Inr (ascii ''message.txt'')"
    by (rule get_filename_object)
  have dec: "fernet_decrypt toy key token = Some ''hi''"
    unfolding token_def by (rule toy_decrypt_len [OF lk])
  have f1: "fs w1 = (fs w0)(ascii ''out.png'' \<mapsto> file')"
    unfolding w1_def
    by (rule encode_success_fs [OF is_png_ascii(1) gk kne pl enc im op ms [unfolded md_def]
          hide [unfolded md_def] save [unfolded md_def]])
  define key' where "key' = urlsafe_b64encode ''aaaaaaaaaaaaaaaaaaaaaaaaaaaaaaaa''"
  have gk': "generate_key toy ''aaaaaaaaaaaaaaaaaaaaaaaaaaaaaaaa'' (Some []) w1
            = (logging Info_key_random w1, Some key')"
    by (simp add: generate_key_def key'_def)
  have kne': "key' \<noteq> []"
    unfolding key'_def by (rule urlsafe_b64encode_nonempty) simp
  have "key' \<noteq> key"
    unfolding key_def key'_def using urlsafe_b64encode_inj by fastforce
  then have rej: "fernet_decrypt toy key' token = None"
    unfolding token_def by (rule toy_decrypt_rejects_len [OF lk])
  have f: "fs w1 (ascii ''out.png'') = Some file'" unfolding f1 by simp
  from decode_frame_no_plaintext [OF is_png_ascii(2) gk' kne' f reopen [unfolded md_def] rev [unfolded md_def]
         js [unfolded md_def] gf rej [unfolded md_def], of False None False]
  have "snd (decode toy ''aaaaaaaaaaaaaaaaaaaaaaaaaaaaaaaa'' (ascii ''out.png'') (Some []) False None False w1) = None"
    by auto
  with f show ?thesis
    unfolding Let_def w0_def [symmetric] w1_def [symmetric]
    unfolding file'_def token_def key_def md_def by simp
qed

lemma round_trip_jpg_output:
  "let w0 = world0\<lparr>fs := [ascii ''a.png'' \<mapsto> [char_of (40::nat), char_of (40::nat)]]\<rparr>;
       w1 = fst (encode toy [] [] (ascii ''a.png'') (ascii ''hi'') (ascii ''out.jpg'')
                   (Some (ascii ''hunter2'')) w0);
       r = decode toy [] (ascii ''out.jpg'') (Some (ascii ''hunter2'')) False None False w1
   in fs w1 (ascii ''out.jpg'')
        = Some (char_of (40::nat) # char_of (40::nat)
                 # frame (urlsafe_b64encode (toy_sha256 ''hunter2'') @ ''hi'')
                     (json_dumps_filename (ascii ''message.txt'')))
      \<and> r = (print Only_png w1, None)"
proof -
  define w0 where "w0 = world0\<lparr>fs := [ascii ''a.png'' \<mapsto> [char_of (40::nat), char_of (40::nat)]]\<rparr>"
  define key where "key = urlsafe_b64encode (toy_sha256 ''hunter2'')"
  define token where "token = key @ ''hi''"
  define md where "md = json_dumps_filename (ascii ''message.txt'')"
  define file' where "file' = char_of (40::nat) # char_of (40::nat) # frame token md"
  define w1 where "w1 = fst (encode toy [] [] (ascii ''a.png'') (ascii ''hi'')
                   (ascii ''out.jpg'') (Some (ascii ''hunter2'')) w0)"
  have lk: "length key = 44" by (simp add: key_def)
  have im: "fs w0 (ascii ''a.png'') = Some [char_of (40::nat), char_of (40::nat)]"
    by (simp add: w0_def ascii_def)
  have pl: "payload w0 (ascii ''hi'') = Some (ascii ''message.txt'', ''hi'')"
    by (rule payload_text_hi) (simp add: w0_def ascii_def)
  have gk: "generate_key toy [] (Some (ascii ''hunter2'')) w0
            = (logging Info_key_from_user w0, Some key)"
    unfolding key_def by (rule toy_generate_key) (simp_all add: is_ascii_def)
  have kne: "key \<noteq> []" using lk by auto
  have enc: "fernet_encrypt toy key [] ''hi'' = Some token"
    unfolding token_def by (rule toy_encrypt_len [OF lk])
  have op: "image_open toy [char_of (40::nat), char_of (40::nat)] = Some (40, 40, [])"
    by (rule toy_open_blank) simp_all
  have lf: "length (frame token md) \<le> 600"
    by (simp add: length_frame token_def lk md_def length_json_message_txt)
  have ms: "message_size token md \<le> max_message_size toy (40, 40, [])"
    by (simp add: message_size_def max_message_size_def token_def lk md_def length_json_message_txt)
  have hide: "lsb_hide toy (40, 40, []) (map of_char (frame token md))
              = Some (40, 40, map of_char (frame token md))"
    by (rule toy_hide_frame) (use lf in simp)
  have save: "image_save toy (40, 40, map of_char (frame token md)) (ascii ''out.jpg'')
              = Some file'"
    unfolding md_def file'_def by (rule toy_save_frame)
  have reopen: "image_open toy file' = Some (40, 40, map of_char (frame token md))"
    unfolding md_def file'_def by (rule toy_open_frame) simp_all
  have rev: "lsb_reveal toy (40, 40, map of_char (frame token md))
             = Some (Some (map of_char (frame token md)))"
    by (rule toy_reveal_frame)
  have js: "json_loads toy md = Some (JObject [(ascii ''filename'', JString (ascii ''message.txt''))])"
    unfolding md_def by (rule toy_json_message_txt)
  have gf: "get_filename (JObject [(ascii ''filename'', JString (ascii ''message.txt''))]) = Inr (ascii ''message.txt'')"
    by (rule get_filename_object)
  have dec: "fernet_decrypt toy key token = Some ''hi''"
    unfolding token_def by (rule toy_decrypt_len [OF lk])
  have f1: "fs w1 = (fs w0)(ascii ''out.jpg'' \<mapsto> file')"
    unfolding w1_def
    by (rule encode_success_fs [OF is_png_ascii(1) gk kne pl enc im op ms [unfolded md_def]
          hide [unfolded md_def] save [unfolded md_def]])
  have f: "fs w1 (ascii ''out.jpg'') = Some file'" unfolding f1 by simp
  have "\<not> endswith (map lower_cp (ascii ''out.jpg'')) (ascii ''.png'')"
    by (simp add: endswith_def ascii_def lower_cp_def)
  then have "decode toy [] (ascii ''out.jpg'') (Some (ascii ''hunter2'')) False None False w1
             = (print Only_png w1, None)"
    by (simp add: decode_def ensure_png_def)
  with f show ?thesis
    unfolding Let_def w0_def [symmetric] w1_def [symmetric]
    unfolding file'_def token_def key_def md_def by simp
qed

lemma round_trip_binary_message_txt:
  "let w0 = world0\<lparr>fs := [ascii ''a.png'' \<mapsto> [char_of (40::nat), char_of (40::nat)],
          ascii ''message.txt'' \<mapsto> [CHR 0x80]]\<rparr>;
       w1 = fst (encode toy [] [] (ascii ''a.png'') (ascii ''message.txt'') (ascii ''out.png'')
                   (Some (ascii ''hunter2'')) w0);
       r = decode toy [] (ascii ''out.png'') (Some (ascii ''hunter2'')) False None False w1
   in fs w1 (ascii ''out.png'')
        = Some (char_of (40::nat) # char_of (40::nat)
                 # frame (urlsafe_b64encode (toy_sha256 ''hunter2'') @ [CHR 0x80])
                     (json_dumps_filename (ascii ''message.txt'')))
      \<and> snd r = None"
proof -
  define w0 where "w0 = world0\<lparr>fs := [ascii ''a.png'' \<mapsto> [char_of (40::nat), char_of (40::nat)],
            ascii ''message.txt'' \<mapsto> [CHR 0x80]]\<rparr>"
  define key where "key = urlsafe_b64encode (toy_sha256 ''hunter2'')"
  define token where "token = key @ [CHR 0x80]"
  define md where "md = json_dumps_filename (ascii ''message.txt'')"
  define file' where "file' = char_of (40::nat) # char_of (40::nat) # frame token md"
  define w1 where "w1 = fst (encode toy [] [] (ascii ''a.png'') (ascii ''message.txt'')
                   (ascii ''out.png'') (Some (ascii ''hunter2'')) w0)"
  have lk: "length key = 44" by (simp add: key_def)
  have im: "fs w0 (ascii ''a.png'') = Some [char_of (40::nat), char_of (40::nat)]"
    by (simp add: w0_def ascii_def)
  have pl: "payload w0 (ascii ''message.txt'') = Some (ascii ''message.txt'', [CHR 0x80])"
  proof -
    have "isfile w0 (ascii ''message.txt'')"
      by (simp add: isfile_def w0_def) (simp add: ascii_def)
    moreover have "fs w0 (ascii ''message.txt'') = Some [CHR 0x80]" by (simp add: w0_def)
    moreover have "basename (ascii ''message.txt'') = ascii ''message.txt''"
      by (rule basename_plain) (simp add: ascii_def)
    ultimately show ?thesis by (simp add: payload_def)
  qed
  have gk: "generate_key toy [] (Some (ascii ''hunter2'')) w0
            = (logging Info_key_from_user w0, Some key)"
    unfolding key_def by (rule toy_generate_key) (simp_all add: is_ascii_def)
  have kne: "key \<noteq> []" using lk by auto
  have enc: "fernet_encrypt toy key [] [CHR 0x80] = Some token"
    unfolding token_def by (rule toy_encrypt_len [OF lk])
  have op: "image_open toy [char_of (40::nat), char_of (40::nat)] = Some (40, 40, [])"
    by (rule toy_open_blank) simp_all
  have lf: "length (frame token md) \<le> 600"
    by (simp add: length_frame token_def lk md_def length_json_message_txt)
  have ms: "message_size token md \<le> max_message_size toy (40, 40, [])"
    by (simp add: message_size_def max_message_size_def token_def lk md_def length_json_message_txt)
  have hide: "lsb_hide toy (40, 40, []) (map of_char (frame token md))
              = Some (40, 40, map of_char (frame token md))"
    by (rule toy_hide_frame) (use lf in simp)
  have save: "image_save toy (40, 40, map of_char (frame token md)) (ascii ''out.png'')
              = Some file'"
    unfolding md_def file'_def by (rule toy_save_frame)
  have reopen: "image_open toy file' = Some (40, 40, map of_char (frame token md))"
    unfolding md_def file'_def by (rule toy_open_frame) simp_all
  have rev: "lsb_reveal toy (40, 40, map of_char (frame token md))
             = Some (Some (map of_char (frame token md)))"
    by (rule toy_reveal_frame)
  have js: "json_loads toy md = Some (JObject [(ascii ''filename'', JString (ascii ''message.txt''))])"
    unfolding md_def by (rule toy_json_message_txt)
  have gf: "get_filename (JObject [(ascii ''filename'', JString (ascii ''message.txt''))]) = Inr (ascii ''message.txt'')"
    by (rule get_filename_object)
  have dec: "fernet_decrypt toy key token = Some [CHR 0x80]"
    unfolding token_def by (rule toy_decrypt_len [OF lk])
  have f1: "fs w1 = (fs w0)(ascii ''out.png'' \<mapsto> file')"
    unfolding w1_def
    by (rule encode_success_fs [OF is_png_ascii(1) gk kne pl enc im op ms [unfolded md_def]
          hide [unfolded md_def] save [unfolded md_def]])
  have gk': "generate_key toy [] (Some (ascii ''hunter2'')) w1
            = (logging Info_key_from_user w1, Some key)"
    unfolding key_def by (rule toy_generate_key) (simp_all add: is_ascii_def)
  have ud: "utf8_decode [CHR 0x80] = None" by simp
  have f: "fs w1 (ascii ''out.png'') = Some file'" unfolding f1 by simp
  have "snd (decode toy [] (ascii ''out.png'') (Some (ascii ''hunter2'')) False None False w1)
          = None"
    unfolding encode_decode_same_key [OF is_png_ascii(1) is_png_ascii(2) gk kne pl
        enc im op ms [unfolded md_def] hide [unfolded md_def] save [unfolded md_def]
        reopen [unfolded md_def] rev [unfolded md_def] js [unfolded md_def] gf w1_def gk' dec]
    by (simp add: deliver_text_undecodable [OF ud])
  with f show ?thesis
    unfolding Let_def w0_def [symmetric] w1_def [symmetric]
    unfolding file'_def token_def key_def md_def by simp
qed

section \<open>The round trip\<close>

text \<open>
  Claim C1, as the code has it. A payload is encoded under a non-empty passphrase \<open>K\<close>
  that \<open>str.encode\<close> accepts, into an output path that ends in \<open>.png\<close>, and the image is
  decoded under the same passphrase. The payload is the text \<open>input_data\<close>, or the contents
  and the base name of the file that \<open>input_data\<close> names. The hypotheses say that \<open>encode\<close>
  succeeded (a token, a cover image with room for it, an adapter that embeds the frame and
  saves the image) and state the contracts of the libraries at this frame: the digest has
  32 bytes, the saved image opens again and reveals the frame, the JSON parser reads the
  metadata back, Fernet decrypts the token under the key that made it. Then the image is
  in the output file, and:

  \<^item> for a text, \<open>decode\<close> returns the text and writes no file;
  \<^item> for a file whose base name is not \<open>message.txt\<close>, \<open>decode\<close> (with no \<open>output_file\<close>)
    returns the base name and writes the contents of the file under that name;
  \<^item> for a file whose base name is \<open>message.txt\<close> and whose contents are valid UTF-8,
    \<open>decode\<close> returns the contents as a string and writes no file.
\<close>

theorem encode_decode_round_trip:
  assumes png_in: "endswith (map lower_cp image_path) (ascii ''.png'')"
    and png_out: "endswith (map lower_cp output_path) (ascii ''.png'')"
    and K: "K \<noteq> []" "utf8_encode K = Some kb" "length (sha256 L kb) = 32"
      "key = urlsafe_b64encode (sha256 L kb)"
    and pl: "payload w input_data = Some (name, data)"
    and enc: "fernet_encrypt L key nonce data = Some token"
    and img: "fs w image_path = Some file" "image_open L file = Some img"
    and fits: "message_size token (json_dumps_filename name) \<le> max_message_size L img"
    and hide: "lsb_hide L img (map of_char (frame token (json_dumps_filename name))) = Some simg"
    and save: "image_save L simg output_path = Some file'"
    and reopen: "image_open L file' = Some simg'"
      "lsb_reveal L simg' = Some (Some (map of_char (frame token (json_dumps_filename name))))"
    and js: "json_loads L (json_dumps_filename name) = Some j" "get_filename j = Inr name"
    and fernet: "fernet_decrypt L key token = Some data"
    and w1: "w1 = fst (encode L rnd nonce image_path input_data output_path (Some K) w)"
  shows "fs w1 output_path = Some file'
     \<and> (\<not> isfile w input_data \<longrightarrow>
          snd (decode L rnd' output_path (Some K) suppress_output output_file
                 from_bruteforce w1) = Some input_data
          \<and> fs (fst (decode L rnd' output_path (Some K) suppress_output output_file
                        from_bruteforce w1)) = fs w1)
     \<and> (isfile w input_data \<longrightarrow> basename input_data \<noteq> ascii ''message.txt'' \<longrightarrow>
          fs w input_data = Some data
          \<and> snd (decode L rnd' output_path (Some K) suppress_output None
                   from_bruteforce w1) = Some (basename input_data)
          \<and> fs (fst (decode L rnd' output_path (Some K) suppress_output None
                        from_bruteforce w1)) = (fs w1)(basename input_data \<mapsto> data))
     \<and> (isfile w input_data \<longrightarrow> basename input_data = ascii ''message.txt'' \<longrightarrow>
          fs w input_data = Some data
          \<and> (\<forall>s. utf8_decode data = Some s \<longrightarrow>
                snd (decode L rnd' output_path (Some K) suppress_output output_file
                       from_bruteforce w1) = Some s
                \<and> fs (fst (decode L rnd' output_path (Some K) suppress_output output_file
                              from_bruteforce w1)) = fs w1))"
proof -
  have gk1: "generate_key L rnd (Some K) w = (logging Info_key_from_user w, Some key)"
    unfolding K(4) by (rule generate_key_digest [OF K(1,2)])
  have gk2: "generate_key L rnd' (Some K) w1 = (logging Info_key_from_user w1, Some key)"
    unfolding K(4) by (rule generate_key_digest [OF K(1,2)])
  have kne: "key \<noteq> []" unfolding K(4) by (rule urlsafe_b64encode_nonempty [OF K(3)])
  have f: "fs w1 output_path = Some file'"
    unfolding w1 encode_success_fs [OF png_in gk1 kne pl enc img fits hide save] by simp
  note d = encode_decode_same_key [OF png_in png_out gk1 kne pl enc img fits hide save reopen
             js w1 gk2 fernet]
  have T: "\<not> isfile w input_data \<longrightarrow>
          snd (decode L rnd' output_path (Some K) suppress_output output_file
                 from_bruteforce w1) = Some input_data
          \<and> fs (fst (decode L rnd' output_path (Some K) suppress_output output_file
                        from_bruteforce w1)) = fs w1"
  proof
    assume nf: "\<not> isfile w input_data"
    with pl have n: "name = ascii ''message.txt''" and e: "utf8_encode input_data = Some data"
      by (auto simp: payload_def)
    from utf8_decode_encode [OF e] show "snd (decode L rnd' output_path (Some K) suppress_output output_file
                 from_bruteforce w1) = Some input_data
          \<and> fs (fst (decode L rnd' output_path (Some K) suppress_output output_file
                        from_bruteforce w1)) = fs w1"
      unfolding d n by (simp add: deliver_text)
  qed
  have F: "isfile w input_data \<longrightarrow> basename input_data \<noteq> ascii ''message.txt'' \<longrightarrow>
          fs w input_data = Some data
          \<and> snd (decode L rnd' output_path (Some K) suppress_output None
                   from_bruteforce w1) = Some (basename input_data)
          \<and> fs (fst (decode L rnd' output_path (Some K) suppress_output None
                        from_bruteforce w1)) = (fs w1)(basename input_data \<mapsto> data)"
  proof (intro impI)
    assume isf: "isfile w input_data" and nm: "basename input_data \<noteq> ascii ''message.txt''"
    with pl have n: "name = basename input_data" and c: "fs w input_data = Some data"
      by (auto simp: payload_def)
    have ow: "open_wb (basename input_data) (logging Info_decrypted (logging Info_key_from_user w1)) \<noteq> None"
      by (rule basename_writable [OF isf])
    show "fs w input_data = Some data
          \<and> snd (decode L rnd' output_path (Some K) suppress_output None
                   from_bruteforce w1) = Some (basename input_data)
          \<and> fs (fst (decode L rnd' output_path (Some K) suppress_output None
                        from_bruteforce w1)) = (fs w1)(basename input_data \<mapsto> data)"
      unfolding d n using c by (simp add: deliver_file_default [OF nm ow])
  qed
  have M: "isfile w input_data \<longrightarrow> basename input_data = ascii ''message.txt'' \<longrightarrow>
          fs w input_data = Some data
          \<and> (\<forall>s. utf8_decode data = Some s \<longrightarrow>
                snd (decode L rnd' output_path (Some K) suppress_output output_file
                       from_bruteforce w1) = Some s
                \<and> fs (fst (decode L rnd' output_path (Some K) suppress_output output_file
                              from_bruteforce w1)) = fs w1)"
  proof (intro impI)
    assume isf: "isfile w input_data" and nm: "basename input_data = ascii ''message.txt''"
    with pl have n: "name = ascii ''message.txt''" and c: "fs w input_data = Some data"
      by (auto simp: payload_def)
    show "fs w input_data = Some data
          \<and> (\<forall>s. utf8_decode data = Some s \<longrightarrow>
                snd (decode L rnd' output_path (Some K) suppress_output output_file
                       from_bruteforce w1) = Some s
                \<and> fs (fst (decode L rnd' output_path (Some K) suppress_output output_file
                              from_bruteforce w1)) = fs w1)"
      unfolding d n using c by (simp add: deliver_text)
  qed
  from f T F M show ?thesis by blast
qed

text \<open>
  The theorem on the small instance: the text \<open>hi\<close>, and the file \<open>secret.bin\<close>.
\<close>

theorem encode_decode_round_trip_witness:
  "(let w0 = world0\<lparr>fs := [ascii ''a.png'' \<mapsto> [char_of (40::nat), char_of (40::nat)]]\<rparr>;
        w1 = fst (encode toy [] [] (ascii ''a.png'') (ascii ''hi'') (ascii ''out.png'')
                    (Some (ascii ''hunter2'')) w0);
        r = decode toy [] (ascii ''out.png'') (Some (ascii ''hunter2'')) False None False w1
    in snd r = Some (ascii ''hi'') \<and> fs (fst r) = fs w1)
   \<and> (let w0 = world0\<lparr>fs := [ascii ''a.png'' \<mapsto> [char_of (40::nat), char_of (40::nat)],
          ascii ''secret.bin'' \<mapsto> ''top secret'']\<rparr>;
        w1 = fst (encode toy [] [] (ascii ''a.png'') (ascii ''secret.bin'') (ascii ''out.png'')
                    (Some (ascii ''hunter2'')) w0);
        r = decode toy [] (ascii ''out.png'') (Some (ascii ''hunter2'')) False None False w1
    in snd r = Some (ascii ''secret.bin'')
       \<and> fs (fst r) = (fs w1)(ascii ''secret.bin'' \<mapsto> ''top secret''))"
proof -
  have k: "ascii ''hunter2'' \<noteq> []" "utf8_encode (ascii ''hunter2'') = Some ''hunter2''"
      "length (sha256 toy ''hunter2'') = 32"
    by (simp add: ascii_def, rule utf8_encode_ascii_str, simp add: is_ascii_def, simp)
  have A: "let w0 = world0\<lparr>fs := [ascii ''a.png'' \<mapsto> [char_of (40::nat), char_of (40::nat)]]\<rparr>;
        w1 = fst (encode toy [] [] (ascii ''a.png'') (ascii ''hi'') (ascii ''out.png'')
                    (Some (ascii ''hunter2'')) w0);
        r = decode toy [] (ascii ''out.png'') (Some (ascii ''hunter2'')) False None False w1
    in snd r = Some (ascii ''hi'') \<and> fs (fst r) = fs w1"
  proof -
    define w0 where "w0 = world0\<lparr>fs := [ascii ''a.png'' \<mapsto> [char_of (40::nat), char_of (40::nat)]]\<rparr>"
    define key where "key = urlsafe_b64encode (toy_sha256 ''hunter2'')"
    define token where "token = key @ ''hi''"
    define md where "md = json_dumps_filename (ascii ''message.txt'')"
    define file' where "file' = char_of (40::nat) # char_of (40::nat) # frame token md"
    define w1 where "w1 = fst (encode toy [] [] (ascii ''a.png'') (ascii ''hi'')
                     (ascii ''out.png'') (Some (ascii ''hunter2'')) w0)"
    have lk: "length key = 44" by (simp add: key_def)
    have im: "fs w0 (ascii ''a.png'') = Some [char_of (40::nat), char_of (40::nat)]"
      by (simp add: w0_def ascii_def)
    have pl: "payload w0 (ascii ''hi'') = Some (ascii ''message.txt'', ''hi'')"
      by (rule payload_text_hi) (simp add: w0_def ascii_def)
    have gk: "generate_key toy [] (Some (ascii ''hunter2'')) w0
              = (logging Info_key_from_user w0, Some key)"
      unfolding key_def by (rule toy_generate_key) (simp_all add: is_ascii_def)
    have kne: "key \<noteq> []" using lk by auto
    have enc: "fernet_encrypt toy key [] ''hi'' = Some token"
      unfolding token_def by (rule toy_encrypt_len [OF lk])
    have op: "image_open toy [char_of (40::nat), char_of (40::nat)] = Some (40, 40, [])"
      by (rule toy_open_blank) simp_all
    have lf: "length (frame token md) \<le> 600"
      by (simp add: length_frame token_def lk md_def length_json_message_txt)
    have ms: "message_size token md \<le> max_message_size toy (40, 40, [])"
      by (simp add: message_size_def max_message_size_def token_def lk md_def length_json_message_txt)
    have hide: "lsb_hide toy (40, 40, []) (map of_char (frame token md))
                = Some (40, 40, map of_char (frame token md))"
      by (rule toy_hide_frame) (use lf in simp)
    have save: "image_save toy (40, 40, map of_char (frame token md)) (ascii ''out.png'')
                = Some file'"
      unfolding md_def file'_def by (rule toy_save_frame)
    have reopen: "image_open toy file' = Some (40, 40, map of_char (frame token md))"
      unfolding md_def file'_def by (rule toy_open_frame) simp_all
    have rev: "lsb_reveal toy (40, 40, map of_char (frame token md))
               = Some (Some (map of_char (frame token md)))"
      by (rule toy_reveal_frame)
    have js: "json_loads toy md = Some (JObject [(ascii ''filename'', JString (ascii ''message.txt''))])"
      unfolding md_def by (rule toy_json_message_txt)
    have gf: "get_filename (JObject [(ascii ''filename'', JString (ascii ''message.txt''))]) = Inr (ascii ''message.txt'')"
      by (rule get_filename_object)
    have dec: "fernet_decrypt toy key token = Some ''hi''"
      unfolding token_def by (rule toy_decrypt_len [OF lk])
    have f1: "fs w1 = (fs w0)(ascii ''out.png'' \<mapsto> file')"
      unfolding w1_def
      by (rule encode_success_fs [OF is_png_ascii(1) gk kne pl enc im op ms [unfolded md_def]
            hide [unfolded md_def] save [unfolded md_def]])
    have kd: "key = urlsafe_b64encode (sha256 toy ''hunter2'')" by (simp add: key_def)
    have nf: "\<not> isfile w0 (ascii ''hi'')" by (simp add: isfile_def w0_def ascii_def)
    note t = encode_decode_round_trip [OF is_png_ascii(1) is_png_ascii(2) k kd pl enc im op
        ms [unfolded md_def] hide [unfolded md_def] save [unfolded md_def]
        reopen [unfolded md_def] rev [unfolded md_def] js [unfolded md_def] gf dec w1_def,
        of "[]" False None False]
    have "snd (decode toy [] (ascii ''out.png'') (Some (ascii ''hunter2'')) False None False w1)
            = Some (ascii ''hi'')
        \<and> fs (fst (decode toy [] (ascii ''out.png'') (Some (ascii ''hunter2'')) False None
                       False w1)) = fs w1"
      using t nf by simp
    then show ?thesis
      unfolding Let_def w0_def [symmetric] w1_def [symmetric] by simp
  qed
  have B: "let w0 = world0\<lparr>fs := [ascii ''a.png'' \<mapsto> [char_of (40::nat), char_of (40::nat)],
          ascii ''secret.bin'' \<mapsto> ''top secret'']\<rparr>;
        w1 = fst (encode toy [] [] (ascii ''a.png'') (ascii ''secret.bin'') (ascii ''out.png'')
                    (Some (ascii ''hunter2'')) w0);
        r = decode toy [] (ascii ''out.png'') (Some (ascii ''hunter2'')) False None False w1
    in snd r = Some (ascii ''secret.bin'')
       \<and> fs (fst r) = (fs w1)(ascii ''secret.bin'' \<mapsto> ''top secret'')"
  proof -
    define w0 where "w0 = world0\<lparr>fs := [ascii ''a.png'' \<mapsto> [char_of (40::nat), char_of (40::nat)],
              ascii ''secret.bin'' \<mapsto> ''top secret'']\<rparr>"
    define key where "key = urlsafe_b64encode (toy_sha256 ''hunter2'')"
    define token where "token = key @ ''top secret''"
    define md where "md = json_dumps_filename (ascii ''secret.bin'')"
    define file' where "file' = char_of (40::nat) # char_of (40::nat) # frame token md"
    define w1 where "w1 = fst (encode toy [] [] (ascii ''a.png'') (ascii ''secret.bin'')
                     (ascii ''out.png'') (Some (ascii ''hunter2'')) w0)"
    have lk: "length key = 44" by (simp add: key_def)
    have im: "fs w0 (ascii ''a.png'') = Some [char_of (40::nat), char_of (40::nat)]"
      by (simp add: w0_def ascii_def)
    have pl: "payload w0 (ascii ''secret.bin'') = Some (ascii ''secret.bin'', ''top secret'')"
    proof -
      have "isfile w0 (ascii ''secret.bin'')"
        by (simp add: isfile_def w0_def) (simp add: ascii_def)
      moreover have "fs w0 (ascii ''secret.bin'') = Some ''top secret''" by (simp add: w0_def)
      moreover have "basename (ascii ''secret.bin'') = ascii ''secret.bin''"
        by (rule basename_plain) (simp add: ascii_def)
      ultimately show ?thesis by (simp add: payload_def)
    qed
    have gk: "generate_key toy [] (Some (ascii ''hunter2'')) w0
              = (logging Info_key_from_user w0, Some key)"
      unfolding key_def by (rule toy_generate_key) (simp_all add: is_ascii_def)
    have kne: "key \<noteq> []" using lk by auto
    have enc: "fernet_encrypt toy key [] ''top secret'' = Some token"
      unfolding token_def by (rule toy_encrypt_len [OF lk])
    have op: "image_open toy [char_of (40::nat), char_of (40::nat)] = Some (40, 40, [])"
      by (rule toy_open_blank) simp_all
    have lf: "length (frame token md) \<le> 600"
      by (simp add: length_frame token_def lk md_def length_json_secret_bin)
    have ms: "message_size token md \<le> max_message_size toy (40, 40, [])"
      by (simp add: message_size_def max_message_size_def token_def lk md_def length_json_secret_bin)
    have hide: "lsb_hide toy (40, 40, []) (map of_char (frame token md))
                = Some (40, 40, map of_char (frame token md))"
      by (rule toy_hide_frame) (use lf in simp)
    have save: "image_save toy (40, 40, map of_char (frame token md)) (ascii ''out.png'')
                = Some file'"
      unfolding md_def file'_def by (rule toy_save_frame)
    have reopen: "image_open toy file' = Some (40, 40, map of_char (frame token md))"
      unfolding md_def file'_def by (rule toy_open_frame) simp_all
    have rev: "lsb_reveal toy (40, 40, map of_char (frame token md))
               = Some (Some (map of_char (frame token md)))"
      by (rule toy_reveal_frame)
    have js: "json_loads toy md = Some (JObject [(ascii ''filename'', JString (ascii ''secret.bin''))])"
      unfolding md_def by (rule toy_json_secret_bin)
    have gf: "get_filename (JObject [(ascii ''filename'', JString (ascii ''secret.bin''))]) = Inr (ascii ''secret.bin'')"
      by (rule get_filename_object)
    have dec: "fernet_decrypt toy key token = Some ''top secret''"
      unfolding token_def by (rule toy_decrypt_len [OF lk])
    have f1: "fs w1 = (fs w0)(ascii ''out.png'' \<mapsto> file')"
      unfolding w1_def
      by (rule encode_success_fs [OF is_png_ascii(1) gk kne pl enc im op ms [unfolded md_def]
            hide [unfolded md_def] save [unfolded md_def]])
    have kd: "key = urlsafe_b64encode (sha256 toy ''hunter2'')" by (simp add: key_def)
    have isf: "isfile w0 (ascii ''secret.bin'')"
      by (simp add: isfile_def w0_def) (simp add: ascii_def)
    have bn: "basename (ascii ''secret.bin'') = ascii ''secret.bin''"
      by (rule basename_plain) (simp add: ascii_def)
    have nm: "ascii ''secret.bin'' \<noteq> ascii ''message.txt''" by (simp add: ascii_def)
    note t = encode_decode_round_trip [OF is_png_ascii(1) is_png_ascii(2) k kd pl enc im op
        ms [unfolded md_def] hide [unfolded md_def] save [unfolded md_def]
        reopen [unfolded md_def] rev [unfolded md_def] js [unfolded md_def] gf dec w1_def,
        of "[]" False None False]
    have "snd (decode toy [] (ascii ''out.png'') (Some (ascii ''hunter2'')) False None False w1)
            = Some (ascii ''secret.bin'')
        \<and> fs (fst (decode toy [] (ascii ''out.png'') (Some (ascii ''hunter2'')) False None
                       False w1)) = (fs w1)(ascii ''secret.bin'' \<mapsto> ''top secret'')"
      using t isf nm unfolding bn by simp
    then show ?thesis
      unfolding Let_def w0_def [symmetric] w1_def [symmetric] by simp
  qed
  from A B show ?thesis by simp
qed

text \<open>
  The claim as stated fails in three ways. With the empty passphrase, which is falsy in
  \<open>if user_key:\<close>, \<open>encode\<close> and \<open>decode\<close> each take a fresh random key, and decoding fails.
  With an output path that does not end in \<open>.png\<close>, \<open>encode\<close> writes the image and \<open>decode\<close>
  refuses the path. With a file named \<open>message.txt\<close> whose contents are not valid UTF-8
  (here the byte \<open>0x80\<close>), \<open>decode\<close> fails on \<open>bytes.decode\<close>.
\<close>

theorem encode_decode_round_trip_fails:
  "(let w0 = world0\<lparr>fs := [ascii ''a.png'' \<mapsto> [char_of (40::nat), char_of (40::nat)]]\<rparr>;
       w1 = fst (encode toy ''AAAAAAAAAAAAAAAAAAAAAAAAAAAAAAAA'' [] (ascii ''a.png'') (ascii ''hi'')
                   (ascii ''out.png'') (Some []) w0);
       r = decode toy ''aaaaaaaaaaaaaaaaaaaaaaaaaaaaaaaa'' (ascii ''out.png'') (Some []) False None
             False w1
   in fs w1 (ascii ''out.png'')
        = Some (char_of (40::nat) # char_of (40::nat)
                 # frame (urlsafe_b64encode ''AAAAAAAAAAAAAAAAAAAAAAAAAAAAAAAA'' @ ''hi'')
                     (json_dumps_filename (ascii ''message.txt'')))
      \<and> snd r = None)
   \<and> (let w0 = world0\<lparr>fs := [ascii ''a.png'' \<mapsto> [char_of (40::nat), char_of (40::nat)]]\<rparr>;
       w1 = fst (encode toy [] [] (ascii ''a.png'') (ascii ''hi'') (ascii ''out.jpg'')
                   (Some (ascii ''hunter2'')) w0);
       r = decode toy [] (ascii ''out.jpg'') (Some (ascii ''hunter2'')) False None False w1
   in fs w1 (ascii ''out.jpg'')
        = Some (char_of (40::nat) # char_of (40::nat)
                 # frame (urlsafe_b64encode (toy_sha256 ''hunter2'') @ ''hi'')
                     (json_dumps_filename (ascii ''message.txt'')))
      \<and> r = (print Only_png w1, None))
   \<and> (let w0 = world0\<lparr>fs := [ascii ''a.png'' \<mapsto> [char_of (40::nat), char_of (40::nat)],
          ascii ''message.txt'' \<mapsto> [CHR 0x80]]\<rparr>;
       w1 = fst (encode toy [] [] (ascii ''a.png'') (ascii ''message.txt'') (ascii ''out.png'')
                   (Some (ascii ''hunter2'')) w0);
       r = decode toy [] (ascii ''out.png'') (Some (ascii ''hunter2'')) False None False w1
   in fs w1 (ascii ''out.png'')
        = Some (char_of (40::nat) # char_of (40::nat)
                 # frame (urlsafe_b64encode (toy_sha256 ''hunter2'') @ [CHR 0x80])
                     (json_dumps_filename (ascii ''message.txt'')))
      \<and> snd r = None)"
  by (intro conjI round_trip_empty_passphrase round_trip_jpg_output
        round_trip_binary_message_txt)

section \<open>The capacity guard\<close>

text \<open>
  Claim C2 asks that \<open>encode\<close> fail before the embedding adapter is invoked whenever the
  frame is longer than the capacity \<open>width * height * 3 div 8\<close>, with an error that
  reports both sizes. The guard of \<open>encode\<close> (lines 126 to 138) compares
  \<open>len(encrypted_data) + len(metadata)\<close> with the capacity: the token before its base64
  encoding, and without the separator. The frame is longer than that by a third of the
  token and three bytes, so a frame over the capacity passes the guard.

  Here: a 15 by 15 image (capacity 84), the text \<open>hi\<close>, the passphrase \<open>hunter2\<close>. The
  token has 46 bytes and the metadata 27, so the guard sees 73; the frame has
  64 + 3 + 27 = 94 bytes. \<open>encode\<close> prints the message size 73, not the error with both
  sizes, and goes on to the adapter, whose exception is logged as a failed encoding.
\<close>

theorem encode_guard_passes_oversized_frame:
  "let w = world0\<lparr>fs := [ascii ''a.png'' \<mapsto> [char_of (15::nat), char_of (15::nat)]]\<rparr>;
       key = urlsafe_b64encode (toy_sha256 ''hunter2'');
       token = key @ ''hi'';
       metadata = json_dumps_filename (ascii ''message.txt'')
   in fernet_encrypt toy key [] ''hi'' = Some token
    \<and> image_open toy [char_of (15::nat), char_of (15::nat)] = Some (15, 15, [])
    \<and> max_message_size toy (15, 15, []) = 84
    \<and> length (frame token metadata) = 94
    \<and> message_size token metadata = 73
    \<and> encode toy [] [] (ascii ''a.png'') (ascii ''hi'') (ascii ''out.png'')
          (Some (ascii ''hunter2'')) w
       = (w\<lparr>log := [Info_key_from_user, Info_key_for_encoding key, Info_encrypted,
                    Error_encoding],
             out := [Message_size 73]\<rparr>, None)"
proof -
  define w where "w = world0\<lparr>fs := [ascii ''a.png'' \<mapsto> [char_of (15::nat), char_of (15::nat)]]\<rparr>"
  define key where "key = urlsafe_b64encode (toy_sha256 ''hunter2'')"
  define token where "token = key @ ''hi''"
  define metadata where "metadata = json_dumps_filename (ascii ''message.txt'')"
  have lk: "length key = 44" by (simp add: key_def)
  then have kne: "key \<noteq> []" by auto
  have e: "fernet_encrypt toy key [] ''hi'' = Some token"
    by (simp add: toy_encrypt_def lk token_def)
  have o: "image_open toy [char_of (15::nat), char_of (15::nat)] = Some (15, 15, [])"
    by (simp add: toy_open_def)
  have m: "max_message_size toy (15, 15, []) = 84"
    by (simp add: max_message_size_def)
  have lf: "length (frame token metadata) = 94"
    by (simp add: length_frame token_def lk metadata_def length_json_message_txt)
  have ms: "message_size token metadata = 73"
    by (simp add: message_size_def token_def lk metadata_def length_json_message_txt)
  have png: "endswith (map lower_cp (ascii ''a.png'')) (ascii ''.png'')"
    by (simp add: endswith_def ascii_def lower_cp_def)
  have gk: "generate_key toy [] (Some (ascii ''hunter2'')) w
            = (logging Info_key_from_user w, Some key)"
    unfolding key_def
    using generate_key_some [of "ascii ''hunter2''" "''hunter2''" toy "[]" w]
    by (simp add: utf8_encode_ascii_str is_ascii_def) (simp add: ascii_def)
  have nf: "\<not> isfile w (ascii ''hi'')"
    by (simp add: isfile_def w_def ascii_def)
  have hi: "utf8_encode (ascii ''hi'') = Some ''hi''"
    by (simp add: utf8_encode_ascii_str is_ascii_def)
  have img: "fs (logging (Info_key_for_encoding key) (logging Info_key_from_user w)) (ascii ''a.png'')
               = Some [char_of (15::nat), char_of (15::nat)]"
    by (simp add: w_def)
  have hide: "lsb_hide toy (15, 15, []) (map of_char (frame token metadata)) = None"
    using lf by (simp add: toy_hide_def)
  have "encode toy [] [] (ascii ''a.png'') (ascii ''hi'') (ascii ''out.png'')
          (Some (ascii ''hunter2'')) w
        = (logging Error_encoding (print (Message_size 73) (logging Info_encrypted
             (logging (Info_key_for_encoding key) (logging Info_key_from_user w)))), None)"
    unfolding encode_text_payload [OF png gk kne nf hi]
      embed_payload_ok [OF e img o]
    using check_and_embed_fits [of token metadata toy "(15, 15, [])"]
      hide_and_save_hide_fails [OF hide [unfolded metadata_def]] ms m
    by (simp add: metadata_def)
  also have "\<dots> = (w\<lparr>log := [Info_key_from_user, Info_key_for_encoding key, Info_encrypted,
                    Error_encoding], out := [Message_size 73]\<rparr>, None)"
    by (simp add: logging_def print_def w_def world0_def)
  finally show ?thesis
    using e o m lf ms
    unfolding Let_def w_def [symmetric] key_def [symmetric] token_def [symmetric]
      metadata_def [symmetric]
    by simp
qed

section \<open>Decoding under another key\<close>



section \<open>A failed decode and the output file\<close>

text \<open>
  Claim C4 asks that a failed \<open>decode\<close> write no partial file: no output file is created
  or truncated by the failed attempt. In \<open>decode\<close> (lines 186 to 190) the file is opened
  with \<open>open(output_filename, "wb")\<close> before \<open>f.write(decrypted_data)\<close>; with a wrong key
  \<open>decrypt\<close> has returned \<open>None\<close>, so the write raises \<open>TypeError\<close> after the file has been
  created or truncated.

  Here: the file \<open>secret.bin\<close> (contents \<open>top secret\<close>) is encoded into \<open>out.png\<close> under the
  passphrase \<open>hunter2\<close>; then \<open>out.png\<close> is decoded under the passphrase \<open>letmein\<close>.
  \<open>decode\<close> returns \<open>None\<close> and logs the failed decryption and the \<open>TypeError\<close>, and the
  file \<open>secret.bin\<close> is left empty.
\<close>

theorem decode_wrong_key_truncates_file:
  "let w0 = world0\<lparr>fs := [ascii ''a.png'' \<mapsto> [char_of (40::nat), char_of (40::nat)],
                          ascii ''secret.bin'' \<mapsto> ''top secret'']\<rparr>;
       w1 = fst (encode toy [] [] (ascii ''a.png'') (ascii ''secret.bin'') (ascii ''out.png'')
                   (Some (ascii ''hunter2'')) w0);
       r = decode toy [] (ascii ''out.png'') (Some (ascii ''letmein'')) False None False w1
   in fs w1 (ascii ''secret.bin'') = Some ''top secret''
    \<and> fs w1 (ascii ''out.png'')
        = Some (char_of (40::nat) # char_of (40::nat)
                 # frame (urlsafe_b64encode (toy_sha256 ''hunter2'') @ ''top secret'')
                     (json_dumps_filename (ascii ''secret.bin'')))
    \<and> snd r = None
    \<and> fs (fst r) = (fs w1)(ascii ''secret.bin'' \<mapsto> [])
    \<and> log (fst r) = log w1 @ [Info_key_from_user, Error_decrypting,
                               Error_decoding_failed TypeError]
    \<and> out (fst r) = out w1"
proof -
  define w0 where "w0 = world0\<lparr>fs := [ascii ''a.png'' \<mapsto> [char_of (40::nat), char_of (40::nat)],
                          ascii ''secret.bin'' \<mapsto> ''top secret'']\<rparr>"
  define key where "key = urlsafe_b64encode (toy_sha256 ''hunter2'')"
  define key' where "key' = urlsafe_b64encode (toy_sha256 ''letmein'')"
  define token where "token = key @ ''top secret''"
  define md where "md = json_dumps_filename (ascii ''secret.bin'')"
  define file' where "file' = char_of (40::nat) # char_of (40::nat) # frame token md"
  define w1 where "w1 = fst (encode toy [] [] (ascii ''a.png'') (ascii ''secret.bin'')
                   (ascii ''out.png'') (Some (ascii ''hunter2'')) w0)"
  define r where "r = decode toy [] (ascii ''out.png'') (Some (ascii ''letmein'')) False None False w1"
  have lk: "length key = 44" by (simp add: key_def)
  have sb: "fs w0 (ascii ''secret.bin'') = Some ''top secret''"
    by (simp add: w0_def ascii_def)
  have im: "fs w0 (ascii ''a.png'') = Some [char_of (40::nat), char_of (40::nat)]"
    by (simp add: w0_def ascii_def)
  have isf: "isfile w0 (ascii ''secret.bin'')"
    using sb by (simp add: isfile_def) (simp add: ascii_def)
  have bn: "basename (ascii ''secret.bin'') = ascii ''secret.bin''"
    by (rule basename_plain) (simp add: ascii_def)
  have gk: "generate_key toy [] (Some (ascii ''hunter2'')) w0
            = (logging Info_key_from_user w0, Some key)"
    unfolding key_def by (rule toy_generate_key) (simp_all add: is_ascii_def)
  have kne: "key \<noteq> []" unfolding key_def by (rule toy_key_nonempty)
  have lf: "length (frame token md) = 101"
    by (simp add: length_frame token_def lk md_def length_json_secret_bin)
  have ms: "message_size token md \<le> max_message_size toy (40, 40, [])"
    by (simp add: message_size_def max_message_size_def token_def lk md_def
          length_json_secret_bin)
  have hide: "lsb_hide toy (40, 40, []) (map of_char (frame token md))
              = Some (40, 40, map of_char (frame token md))"
    by (rule toy_hide_frame) (simp add: lf)
  have e: "encode toy [] [] (ascii ''a.png'') (ascii ''secret.bin'') (ascii ''out.png'')
             (Some (ascii ''hunter2'')) w0
           = (print (Encryption_key key) (print Encoded_ok
               ((print (Message_size (message_size token md))
                  (logging Info_encrypted (logging (Info_key_for_encoding key)
                     (logging Info_key_from_user w0))))
                 \<lparr>fs := (fs w0)(ascii ''out.png'' \<mapsto> file')\<rparr>)), None)"
    unfolding encode_file_payload [OF is_png_ascii(1) gk kne isf sb] bn
    using embed_payload_success [of toy key "[]" "''top secret''" token
            "logging (Info_key_for_encoding key) (logging Info_key_from_user w0)"
            "ascii ''a.png''" "[char_of (40::nat), char_of (40::nat)]" "(40, 40, [])"
            "ascii ''secret.bin''" "(40, 40, map of_char (frame token md))"
            "ascii ''out.png''" file']
      toy_encrypt_key [of "''hunter2''" "[]" "''top secret''"] im
      toy_open_blank [of 40 40] ms hide
      toy_save_frame [of 40 40 token "ascii ''secret.bin''" "ascii ''out.png''"]
    by (simp add: key_def [symmetric] token_def [symmetric] md_def [symmetric]
          file'_def [symmetric])
  have f1: "fs w1 = (fs w0)(ascii ''out.png'' \<mapsto> file')"
    unfolding w1_def e by simp
  have c1: "fs w1 (ascii ''secret.bin'') = Some ''top secret''"
    unfolding f1 using sb by (simp add: ascii_def)
  have c2: "fs w1 (ascii ''out.png'') = Some file'" unfolding f1 by simp
  have gk': "generate_key toy [] (Some (ascii ''letmein'')) w1
            = (logging Info_key_from_user w1, Some key')"
    unfolding key'_def by (rule toy_generate_key) (simp_all add: is_ascii_def)
  have kne': "key' \<noteq> []" unfolding key'_def by (rule toy_key_nonempty)
  have op: "image_open toy file' = Some (40, 40, map of_char (frame token (json_dumps_filename (ascii ''secret.bin''))))"
    unfolding file'_def md_def by (rule toy_open_frame) simp_all
  have dec: "fernet_decrypt toy key' token = None"
    unfolding key'_def token_def key_def
    by (rule toy_decrypt_other [OF toy_key_hunter2_letmein])
  have ne: "ascii ''secret.bin'' \<noteq> ascii ''message.txt''" by (simp add: ascii_def)
  have ow: "\<And>w. open_wb (ascii ''secret.bin'') w \<noteq> None"
    by (simp add: open_wb_def ascii_def)
  have d: "r = (logging (Error_decoding_failed TypeError)
                 ((logging Error_decrypting (logging Info_key_from_user w1))
                    \<lparr>fs := (fs w1)(ascii ''secret.bin'' \<mapsto> [])\<rparr>), None)"
    unfolding r_def
      decode_frame [OF is_png_ascii(2) gk' kne' c2 op toy_reveal_frame toy_json_secret_bin
        get_filename_object] dec
    using deliver_file_no_data [OF ne ow]
    by (simp add: logging_def)
  have "fs w1 (ascii ''secret.bin'') = Some ''top secret''
    \<and> fs w1 (ascii ''out.png'') = Some file'
    \<and> snd r = None
    \<and> fs (fst r) = (fs w1)(ascii ''secret.bin'' \<mapsto> [])
    \<and> log (fst r) = log w1 @ [Info_key_from_user, Error_decrypting,
                               Error_decoding_failed TypeError]
    \<and> out (fst r) = out w1"
    using c1 c2 unfolding d by (simp add: logging_def)
  then show ?thesis
    unfolding Let_def w0_def [symmetric] w1_def [symmetric] r_def [symmetric]
      file'_def token_def key_def md_def
    by simp
qed

section \<open>Splitting the frame\<close>

text \<open>
  Claim C5. A valid frame, the base64 text of a token, the separator and the JSON
  metadata, splits into exactly these two parts. For every revealed text that \<open>decode\<close>
  gets from the image, with \<open>raw\<close> its bytes and \<open>parts\<close> the result of
  \<open>raw.split(separator)\<close>:

  \<^item> fewer than two parts: the separator does not occur in \<open>raw\<close>, and \<open>decode\<close> prints that
    the message format is corrupted and returns \<open>None\<close>;
  \<^item> more than two parts: the unpacking raises \<open>ValueError\<close>, which \<open>decode\<close> logs, and
    \<open>decode\<close> returns \<open>None\<close>; nothing is decrypted in either case;
  \<^item> exactly two parts \<open>p\<close> and \<open>q\<close>: \<open>raw\<close> is \<open>p\<close>, the separator, \<open>q\<close>, the separator
    does not occur in \<open>raw\<close> at any position before the end of \<open>p\<close> (the split is at its
    first occurrence), and \<open>decode\<close> goes on with \<open>p\<close> as the encrypted data and \<open>q\<close> as
    the metadata.
\<close>

theorem decode_splits_frame:
  "split_bytes separator (frame ed (json_dumps_filename name))
     = [b64encode ed, json_dumps_filename name]
   \<and> (endswith (map lower_cp image_path) (ascii ''.png'') \<longrightarrow>
      generate_key L rnd user_key w = (w1, Some key) \<longrightarrow> key \<noteq> [] \<longrightarrow>
      fs w image_path = Some file \<longrightarrow> image_open L file = Some img \<longrightarrow>
      lsb_reveal L img = Some (Some message) \<longrightarrow> message \<noteq> [] \<longrightarrow>
      utf8_encode message = Some raw \<longrightarrow>
      (let parts = split_bytes separator raw;
           r = decode L rnd image_path user_key suppress_output output_file from_bruteforce w
       in (length parts < 2 \<longrightarrow>
             (\<forall>i. take 3 (drop i raw) \<noteq> separator)
             \<and> r = (print Corrupted_format w1, None))
        \<and> (length parts > 2 \<longrightarrow>
             r = (logging (Error_decoding_failed ValueError) w1, None))
        \<and> (\<forall>p q. parts = [p, q] \<longrightarrow>
             raw = p @ separator @ q
             \<and> (\<forall>i<length p. take 3 (drop i raw) \<noteq> separator)
             \<and> r = (case decode_parts L key p q suppress_output output_file
                            from_bruteforce w1 of
                      (w2, Inl e) \<Rightarrow> (logging (Error_decoding_failed e) w2, None)
                    | (w2, Inr v) \<Rightarrow> (w2, v)))))"
proof (intro conjI impI)
  show "split_bytes separator (frame ed (json_dumps_filename name))
     = [b64encode ed, json_dumps_filename name]"
    by (rule frame_split)
next
  assume png: "endswith (map lower_cp image_path) (ascii ''.png'')"
    and key: "generate_key L rnd user_key w = (w1, Some key)" "key \<noteq> []"
    and img: "fs w image_path = Some file" "image_open L file = Some img"
      "lsb_reveal L img = Some (Some message)" "message \<noteq> []"
    and raw: "utf8_encode message = Some raw"
  note d = decode_reaches_message [OF png key img, of suppress_output output_file
             from_bruteforce, unfolded decode_message_cases [OF raw]]
  show "let parts = split_bytes separator raw;
           r = decode L rnd image_path user_key suppress_output output_file from_bruteforce w
       in (length parts < 2 \<longrightarrow>
             (\<forall>i. take 3 (drop i raw) \<noteq> separator)
             \<and> r = (print Corrupted_format w1, None))
        \<and> (length parts > 2 \<longrightarrow>
             r = (logging (Error_decoding_failed ValueError) w1, None))
        \<and> (\<forall>p q. parts = [p, q] \<longrightarrow>
             raw = p @ separator @ q
             \<and> (\<forall>i<length p. take 3 (drop i raw) \<noteq> separator)
             \<and> r = (case decode_parts L key p q suppress_output output_file
                            from_bruteforce w1 of
                      (w2, Inl e) \<Rightarrow> (logging (Error_decoding_failed e) w2, None)
                    | (w2, Inr v) \<Rightarrow> (w2, v)))"
    unfolding Let_def
  proof (intro conjI impI allI)
    fix i assume "length (split_bytes separator raw) < 2"
    then show "take 3 (drop i raw) \<noteq> separator" by (rule split_bytes_one)
  next
    assume "length (split_bytes separator raw) < 2"
    then show "decode L rnd image_path user_key suppress_output output_file from_bruteforce w
               = (print Corrupted_format w1, None)"
      unfolding d by simp
  next
    assume "2 < length (split_bytes separator raw)"
    then show "decode L rnd image_path user_key suppress_output output_file from_bruteforce w
               = (logging (Error_decoding_failed ValueError) w1, None)"
      unfolding d by simp
  next
    fix p q assume "split_bytes separator raw = [p, q]"
    then show "raw = p @ separator @ q" using split_bytes_two by blast
  next
    fix p q i assume "split_bytes separator raw = [p, q]" "i < length p"
    then show "take 3 (drop i raw) \<noteq> separator" using split_bytes_two by blast
  next
    fix p q assume "split_bytes separator raw = [p, q]"
    then show "decode L rnd image_path user_key suppress_output output_file from_bruteforce w
               = (case decode_parts L key p q suppress_output output_file
                            from_bruteforce w1 of
                      (w2, Inl e) \<Rightarrow> (logging (Error_decoding_failed e) w2, None)
                    | (w2, Inr v) \<Rightarrow> (w2, v))"
      unfolding d by simp
  qed
qed

text \<open>
  The theorem on three images of the small instance: one whose hidden text is \<open>abc\<close> (one
  part), one with two separators (three parts), and the bytes \<open>a\<close>, four zero bytes, \<open>b\<close>,
  which split at the first three zero bytes.
\<close>

theorem decode_splits_frame_witness:
  "decode toy [] (ascii ''a.png'') (Some (ascii ''hunter2'')) False None False
     (world0\<lparr>fs := [ascii ''a.png'' \<mapsto> char_of (9::nat) # char_of (9::nat) # ''abc'']\<rparr>)
    = (print Corrupted_format (logging Info_key_from_user
         (world0\<lparr>fs := [ascii ''a.png'' \<mapsto> char_of (9::nat) # char_of (9::nat) # ''abc'']\<rparr>)),
       None)
   \<and> decode toy [] (ascii ''a.png'') (Some (ascii ''hunter2'')) False None False
     (world0\<lparr>fs := [ascii ''a.png'' \<mapsto> char_of (9::nat) # char_of (9::nat)
                        # ''a'' @ separator @ ''b'' @ separator @ ''c'']\<rparr>)
    = (logging (Error_decoding_failed ValueError) (logging Info_key_from_user
         (world0\<lparr>fs := [ascii ''a.png'' \<mapsto> char_of (9::nat) # char_of (9::nat)
                        # ''a'' @ separator @ ''b'' @ separator @ ''c'']\<rparr>)),
       None)
   \<and> split_bytes separator (''a'' @ separator @ nul # ''b'') = [''a'', nul # ''b'']
   \<and> take 3 (drop 0 (''a'' @ separator @ nul # ''b'')) \<noteq> separator
   \<and> take 3 (drop 1 (''a'' @ separator @ nul # ''b'')) = separator
   \<and> take 3 (drop 2 (''a'' @ separator @ nul # ''b'')) = separator"
proof -
  define raw1 where "raw1 = ''abc''"
  define raw2 where "raw2 = ''a'' @ separator @ nul # ''b''"
  define raw3 where "raw3 = ''a'' @ separator @ ''b'' @ separator @ ''c''"
  define W where "W = (\<lambda>raw. world0\<lparr>fs := [ascii ''a.png'' \<mapsto> char_of (9::nat) # char_of (9::nat) # raw]\<rparr>)"
  define key where "key = urlsafe_b64encode (toy_sha256 ''hunter2'')"
  have a: "is_ascii raw1" "is_ascii raw2" "is_ascii raw3"
    by (simp_all add: raw1_def raw2_def raw3_def is_ascii_def separator_def nul_def)
  have ne: "map of_char raw1 \<noteq> ([]::ustr)" "map of_char raw2 \<noteq> ([]::ustr)"
      "map of_char raw3 \<noteq> ([]::ustr)"
    by (simp_all add: raw1_def raw2_def raw3_def)
  have gk: "\<And>raw. generate_key toy [] (Some (ascii ''hunter2'')) (W raw)
            = (logging Info_key_from_user (W raw), Some key)"
    unfolding key_def by (rule toy_generate_key) (simp_all add: is_ascii_def)
  have kne: "key \<noteq> []" unfolding key_def by (rule toy_key_nonempty)
  have f: "\<And>raw. fs (W raw) (ascii ''a.png'') = Some (char_of (9::nat) # char_of (9::nat) # raw)"
    by (simp add: W_def)
  have op: "\<And>raw. is_ascii raw \<Longrightarrow>
              image_open toy (char_of (9::nat) # char_of (9::nat) # raw) = Some (9, 9, map of_char raw)"
    by (rule toy_open_ascii) simp_all
  note t = decode_splits_frame [of "[]" "[]" "ascii ''a.png''" toy "[]" "Some (ascii ''hunter2'')"
             _ _ key _ "(9, 9, _)" _ _ False None False, THEN conjunct2, rule_format,
             OF is_png_ascii(1) gk kne f op toy_reveal_text _ utf8_encode_ascii,
             unfolded Let_def]
  have 1: "decode toy [] (ascii ''a.png'') (Some (ascii ''hunter2'')) False None False (W raw1)
           = (print Corrupted_format (logging Info_key_from_user (W raw1)), None)"
    using t [OF a(1) ne(1) ne(1) a(1)] split_one by (simp add: raw1_def)
  have 3: "decode toy [] (ascii ''a.png'') (Some (ascii ''hunter2'')) False None False (W raw3)
           = (logging (Error_decoding_failed ValueError) (logging Info_key_from_user (W raw3)),
              None)"
    using t [OF a(3) ne(3) ne(3) a(3)] split_three by (simp add: raw3_def)
  have 2: "take 3 (drop 0 raw2) \<noteq> separator"
    using t [OF a(2) ne(2) ne(2) a(2)] split_two by (simp add: raw2_def)
  have 4: "take 3 (drop 1 raw2) = separator" "take 3 (drop 2 raw2) = separator"
    by (simp_all add: raw2_def separator_def nul_def)
  show ?thesis
    using 1 2 3 4 split_two
    unfolding raw1_def raw2_def raw3_def W_def by simp
qed

section \<open>Key derivation\<close>

text \<open>
  Claim C8, as the code has it, for every passphrase string \<open>user_key\<close>.

  Determinism: for every non-empty passphrase the result of \<open>generate_key\<close> (a key, or no
  key when \<open>str.encode\<close> rejects the passphrase) depends on the passphrase only, not on the
  random source and not on the world.

  Format: for every passphrase that \<open>str.encode\<close> accepts, empty or not, \<open>generate_key\<close>
  returns a key, and the key is the URL-safe base64 encoding of 32 bytes: the digest of the
  passphrase's bytes when the passphrase is not empty, the 32 bytes of \<open>os.urandom\<close> when it
  is (the empty string is falsy in \<open>if user_key:\<close>). That encoding has 44 characters, all
  printable and all of the URL-safe alphabet or the pad. The same holds when no passphrase
  is given (\<open>None\<close>). That the digest and the random string have 32 bytes is the contract
  of \<open>hashlib.sha256\<close> and \<open>os.urandom(32)\<close>.
\<close>

theorem generate_key_passphrase:
  "(user_key \<noteq> [] \<longrightarrow>
      snd (generate_key L rnd (Some user_key) w) = snd (generate_key L rnd' (Some user_key) w'))
   \<and> (utf8_encode user_key = Some b \<longrightarrow>
        (let raw = (if user_key = [] then rnd else sha256 L b) in
         length raw = 32 \<longrightarrow>
           snd (generate_key L rnd (Some user_key) w) = Some (urlsafe_b64encode raw)
           \<and> length (urlsafe_b64encode raw) = 44
           \<and> (\<forall>c\<in>set (urlsafe_b64encode raw). printable c \<and> urlsafe_char c)))
   \<and> (length rnd = 32 \<longrightarrow>
        snd (generate_key L rnd None w) = Some (urlsafe_b64encode rnd)
        \<and> length (urlsafe_b64encode rnd) = 44
        \<and> (\<forall>c\<in>set (urlsafe_b64encode rnd). printable c \<and> urlsafe_char c))"
proof (intro conjI impI)
  assume "user_key \<noteq> []"
  then show "snd (generate_key L rnd (Some user_key) w)
             = snd (generate_key L rnd' (Some user_key) w')"
    by (simp add: generate_key_nonempty)
next
  assume b: "utf8_encode user_key = Some b"
  show "let raw = (if user_key = [] then rnd else sha256 L b) in
         length raw = 32 \<longrightarrow>
           snd (generate_key L rnd (Some user_key) w) = Some (urlsafe_b64encode raw)
           \<and> length (urlsafe_b64encode raw) = 44
           \<and> (\<forall>c\<in>set (urlsafe_b64encode raw). printable c \<and> urlsafe_char c)"
  proof (cases "user_key = []")
    case True
    then show ?thesis
      by (simp add: generate_key_falsy length_urlsafe_b64encode
            urlsafe_b64encode_printable urlsafe_b64encode_alphabet)
  next
    case False
    then show ?thesis
      using b
      by (simp add: generate_key_nonempty length_urlsafe_b64encode
            urlsafe_b64encode_printable urlsafe_b64encode_alphabet)
  qed
next
  show "snd (generate_key L rnd None w) = Some (urlsafe_b64encode rnd)"
    by (simp add: generate_key_falsy)
next
  assume "length rnd = 32"
  then show "length (urlsafe_b64encode rnd) = 44" by (rule length_urlsafe_b64encode)
next
  show "\<forall>c\<in>set (urlsafe_b64encode rnd). printable c \<and> urlsafe_char c"
    by (simp add: urlsafe_b64encode_printable urlsafe_b64encode_alphabet)
qed

text \<open>
  The theorem at the passphrase \<open>hunter2\<close>, with two different random strings and two
  different worlds, and at the empty passphrase.
\<close>

theorem generate_key_passphrase_witness:
  "snd (generate_key toy ''AAAAAAAAAAAAAAAAAAAAAAAAAAAAAAAA'' (Some (ascii ''hunter2'')) world0)
     = snd (generate_key toy ''aaaaaaaaaaaaaaaaaaaaaaaaaaaaaaaa'' (Some (ascii ''hunter2'')) (print Only_png world0))
   \<and> snd (generate_key toy ''AAAAAAAAAAAAAAAAAAAAAAAAAAAAAAAA'' (Some (ascii ''hunter2'')) world0)
       = Some (urlsafe_b64encode (toy_sha256 ''hunter2''))
   \<and> length (urlsafe_b64encode (toy_sha256 ''hunter2'')) = 44
   \<and> snd (generate_key toy ''AAAAAAAAAAAAAAAAAAAAAAAAAAAAAAAA'' (Some []) world0)
       = Some (urlsafe_b64encode ''AAAAAAAAAAAAAAAAAAAAAAAAAAAAAAAA'')
   \<and> length (urlsafe_b64encode ''AAAAAAAAAAAAAAAAAAAAAAAAAAAAAAAA'') = 44"
proof -
  have 1: "ascii ''hunter2'' \<noteq> []" by (simp add: ascii_def)
  have 2: "utf8_encode (ascii ''hunter2'') = Some ''hunter2''"
    unfolding ascii_def by (rule utf8_encode_ascii) (simp add: is_ascii_def)
  have 3: "length (sha256 toy ''hunter2'') = 32" by (simp add: toy_def toy_sha256_def)
  have 4: "utf8_encode [] = Some []" by simp
  have 5: "length ''AAAAAAAAAAAAAAAAAAAAAAAAAAAAAAAA'' = 32" by simp
  have 6: "sha256 toy = toy_sha256" by (simp add: toy_def)
  show ?thesis
    using generate_key_passphrase
            [of "ascii ''hunter2''" toy "''AAAAAAAAAAAAAAAAAAAAAAAAAAAAAAAA''" world0
                "''aaaaaaaaaaaaaaaaaaaaaaaaaaaaaaaa''" "print Only_png world0" "''hunter2''"]
          generate_key_passphrase
            [of "[]" toy "''AAAAAAAAAAAAAAAAAAAAAAAAAAAAAAAA''" world0 "''aaaaaaaaaaaaaaaaaaaaaaaaaaaaaaaa''" world0 "[]"]
          1 2 3 4 5 6
    by (auto simp add: Let_def)
qed

text \<open>
  The claim as stated fails at two passphrases. The empty passphrase is falsy in
  \<open>if user_key:\<close>, so the key is random: two runs with different random bytes give
  different keys. A passphrase with a lone surrogate (here U+DCFF, which is how Python
  passes an undecodable byte of the command line) makes \<open>str.encode\<close> raise, and
  \<open>generate_key\<close> returns no key at all.
\<close>

theorem generate_key_empty_passphrase_random:
  "snd (generate_key toy ''AAAAAAAAAAAAAAAAAAAAAAAAAAAAAAAA'' (Some []) world0)
     \<noteq> snd (generate_key toy ''aaaaaaaaaaaaaaaaaaaaaaaaaaaaaaaa'' (Some []) world0)
   \<and> utf8_encode [] = Some []
   \<and> snd (generate_key toy ''AAAAAAAAAAAAAAAAAAAAAAAAAAAAAAAA'' (Some [0xDCFF]) world0) = None"
proof -
  have "hd (urlsafe_b64encode ''AAAAAAAAAAAAAAAAAAAAAAAAAAAAAAAA'')
        \<noteq> hd (urlsafe_b64encode ''aaaaaaaaaaaaaaaaaaaaaaaaaaaaaaaa'')"
    unfolding hd_urlsafe_b64encode
    by (simp add: b64chr_def urlsafe_def char_of_eq_iff take_bit_eq_mod)
  then have "urlsafe_b64encode ''AAAAAAAAAAAAAAAAAAAAAAAAAAAAAAAA''
        \<noteq> urlsafe_b64encode ''aaaaaaaaaaaaaaaaaaaaaaaaaaaaaaaa''"
    by metis
  moreover have "snd (generate_key toy ''AAAAAAAAAAAAAAAAAAAAAAAAAAAAAAAA'' (Some [0xDCFF]) world0) = None"
    by (simp add: generate_key_def utf8_enc1_def)
  ultimately show ?thesis by (simp add: generate_key_def)
qed

section \<open>A file named \<open>message.txt\<close>\<close>

text \<open>
  Claim C10, as the code has it. A file whose base name is \<open>message.txt\<close> is encoded under
  the passphrase \<open>K\<close> and the image is decoded under the same passphrase. The hypotheses
  say that \<open>encode\<close> succeeded and state the contracts of the libraries at this frame (the
  saved image opens again and reveals the frame, the JSON parser reads the metadata back,
  Fernet decrypts the token under the key that made it). Then:

  \<^item> \<open>decode\<close> writes no file, whatever \<open>output_file\<close> is;
  \<^item> when the contents of the file are valid UTF-8, \<open>decode\<close> returns them as a string,
    and prints that string unless \<open>suppress_output\<close> is set;
  \<^item> when they are not, \<open>bytes.decode\<close> raises \<open>UnicodeDecodeError\<close>: \<open>decode\<close> logs it and
    returns \<open>None\<close>;
  \<^item> \<open>encode\<close> does the same for the file as for every inline text with the same bytes, so
    the two cannot be told apart afterwards.
\<close>

theorem decode_file_named_message_txt:
  assumes png_in: "endswith (map lower_cp image_path) (ascii ''.png'')"
    and png_out: "endswith (map lower_cp output_path) (ascii ''.png'')"
    and key1: "generate_key L rnd (Some K) w = (wk1, Some key)" "key \<noteq> []"
    and isf: "isfile w input_data" "fs w input_data = Some data"
      "basename input_data = ascii ''message.txt''"
    and enc: "fernet_encrypt L key nonce data = Some token"
    and img: "fs w image_path = Some file" "image_open L file = Some img"
    and fits: "message_size token (json_dumps_filename (ascii ''message.txt''))
                 \<le> max_message_size L img"
    and hide: "lsb_hide L img
                 (map of_char (frame token (json_dumps_filename (ascii ''message.txt''))))
               = Some simg"
    and save: "image_save L simg output_path = Some file'"
    and reopen: "image_open L file' = Some simg'"
      "lsb_reveal L simg'
         = Some (Some (map of_char (frame token (json_dumps_filename (ascii ''message.txt'')))))"
    and js: "json_loads L (json_dumps_filename (ascii ''message.txt'')) = Some j"
      "get_filename j = Inr (ascii ''message.txt'')"
    and w1: "w1 = fst (encode L rnd nonce image_path input_data output_path (Some K) w)"
    and key2: "generate_key L rnd' (Some K) w1 = (wk2, Some key)"
    and fernet: "fernet_decrypt L key token = Some data"
  shows "fs (fst (decode L rnd' output_path (Some K) suppress_output output_file
                    from_bruteforce w1)) = fs w1
     \<and> (\<forall>s. utf8_decode data = Some s \<longrightarrow>
           decode L rnd' output_path (Some K) suppress_output output_file from_bruteforce w1
             = ((if suppress_output then logging Info_decrypted wk2
                 else print (Decoded_message s) (logging Info_decrypted wk2)), Some s))
     \<and> (utf8_decode data = None \<longrightarrow>
           decode L rnd' output_path (Some K) suppress_output output_file from_bruteforce w1
             = (logging (Error_decoding_failed UnicodeDecodeError)
                  (logging Info_decrypted wk2), None))
     \<and> (\<forall>s. \<not> isfile w s \<longrightarrow> utf8_encode s = Some data \<longrightarrow>
           encode L rnd nonce image_path s output_path (Some K) w
             = encode L rnd nonce image_path input_data output_path (Some K) w)"
proof -
  have pl: "payload w input_data = Some (ascii ''message.txt'', data)"
    using payload_file [OF isf(1,2)] isf(3) by simp
  note d = encode_decode_same_key [OF png_in png_out key1 pl enc img fits hide save reopen js
             w1 key2 fernet, of suppress_output output_file from_bruteforce]
  have fk: "fs wk2 = fs w1" using fs_of_generate_key [OF key2] .
  have A: "fs (fst (decode L rnd' output_path (Some K) suppress_output output_file
                    from_bruteforce w1)) = fs w1"
    unfolding d using fk
    by (cases "utf8_decode data")
      (simp_all add: deliver_text deliver_text_undecodable)
  have B: "\<forall>s. utf8_decode data = Some s \<longrightarrow>
           decode L rnd' output_path (Some K) suppress_output output_file from_bruteforce w1
             = ((if suppress_output then logging Info_decrypted wk2
                 else print (Decoded_message s) (logging Info_decrypted wk2)), Some s)"
    unfolding d by (simp add: deliver_text)
  have C: "utf8_decode data = None \<longrightarrow>
           decode L rnd' output_path (Some K) suppress_output output_file from_bruteforce w1
             = (logging (Error_decoding_failed UnicodeDecodeError)
                  (logging Info_decrypted wk2), None)"
    unfolding d by (simp add: deliver_text_undecodable)
  have D: "\<forall>s. \<not> isfile w s \<longrightarrow> utf8_encode s = Some data \<longrightarrow>
           encode L rnd nonce image_path s output_path (Some K) w
             = encode L rnd nonce image_path input_data output_path (Some K) w"
  proof (intro allI impI)
    fix s assume "\<not> isfile w s" "utf8_encode s = Some data"
    then have "payload w s = payload w input_data" using pl by (simp add: payload_text)
    then show "encode L rnd nonce image_path s output_path (Some K) w
             = encode L rnd nonce image_path input_data output_path (Some K) w"
      using pl by (intro encode_depends_on_payload) simp_all
  qed
  from A B C D show ?thesis by blast
qed

text \<open>
  The theorem on the small instance: a file \<open>message.txt\<close> that holds \<open>hello\<close>, and the
  inline text \<open>hello\<close>.
\<close>

theorem decode_file_named_message_txt_witness:
  "let w0 = world0\<lparr>fs := [ascii ''a.png'' \<mapsto> [char_of (40::nat), char_of (40::nat)],
                          ascii ''message.txt'' \<mapsto> ''hello'']\<rparr>;
       w1 = fst (encode toy [] [] (ascii ''a.png'') (ascii ''message.txt'') (ascii ''out.png'')
                   (Some (ascii ''hunter2'')) w0);
       r = decode toy [] (ascii ''out.png'') (Some (ascii ''hunter2'')) False None False w1
   in snd r = Some (ascii ''hello'')
    \<and> fs (fst r) = fs w1
    \<and> out (fst r) = out w1 @ [Decoded_message (ascii ''hello'')]
    \<and> encode toy [] [] (ascii ''a.png'') (ascii ''hello'') (ascii ''out.png'')
          (Some (ascii ''hunter2'')) w0
       = encode toy [] [] (ascii ''a.png'') (ascii ''message.txt'') (ascii ''out.png'')
          (Some (ascii ''hunter2'')) w0"
proof -
  define w0 where "w0 = world0\<lparr>fs := [ascii ''a.png'' \<mapsto> [char_of (40::nat), char_of (40::nat)],
                          ascii ''message.txt'' \<mapsto> ''hello'']\<rparr>"
  define key where "key = urlsafe_b64encode (toy_sha256 ''hunter2'')"
  define token where "token = key @ ''hello''"
  define md where "md = json_dumps_filename (ascii ''message.txt'')"
  define file' where "file' = char_of (40::nat) # char_of (40::nat) # frame token md"
  define w1 where "w1 = fst (encode toy [] [] (ascii ''a.png'') (ascii ''message.txt'')
                   (ascii ''out.png'') (Some (ascii ''hunter2'')) w0)"
  have lk: "length key = 44" by (simp add: key_def)
  have im: "fs w0 (ascii ''a.png'') = Some [char_of (40::nat), char_of (40::nat)]"
    by (simp add: w0_def ascii_def)
  have pl: "payload w0 (ascii ''message.txt'') = Some (ascii ''message.txt'', ''hello'')"
  proof -
    have "isfile w0 (ascii ''message.txt'')"
      by (simp add: isfile_def w0_def) (simp add: ascii_def)
    moreover have "fs w0 (ascii ''message.txt'') = Some ''hello''" by (simp add: w0_def)
    moreover have "basename (ascii ''message.txt'') = ascii ''message.txt''"
      by (rule basename_plain) (simp add: ascii_def)
    ultimately show ?thesis by (simp add: payload_def)
  qed
  have gk: "generate_key toy [] (Some (ascii ''hunter2'')) w0
            = (logging Info_key_from_user w0, Some key)"
    unfolding key_def by (rule toy_generate_key) (simp_all add: is_ascii_def)
  have kne: "key \<noteq> []" unfolding key_def by (rule toy_key_nonempty)
  have enc: "fernet_encrypt toy key [] ''hello'' = Some token"
    unfolding key_def token_def by (rule toy_encrypt_key)
  have op: "image_open toy [char_of (40::nat), char_of (40::nat)] = Some (40, 40, [])"
    by (rule toy_open_blank) simp_all
  have lf: "length (frame token md) \<le> 600"
    by (simp add: length_frame token_def lk md_def length_json_message_txt)
  have ms: "message_size token md \<le> max_message_size toy (40, 40, [])"
    by (simp add: message_size_def max_message_size_def token_def lk md_def length_json_message_txt)
  have hide: "lsb_hide toy (40, 40, []) (map of_char (frame token md))
              = Some (40, 40, map of_char (frame token md))"
    by (rule toy_hide_frame) (use lf in simp)
  have save: "image_save toy (40, 40, map of_char (frame token md)) (ascii ''out.png'')
              = Some file'"
    unfolding md_def file'_def by (rule toy_save_frame)
  have reopen: "image_open toy file' = Some (40, 40, map of_char (frame token md))"
    unfolding md_def file'_def by (rule toy_open_frame) simp_all
  have rev: "lsb_reveal toy (40, 40, map of_char (frame token md))
             = Some (Some (map of_char (frame token md)))"
    by (rule toy_reveal_frame)
  have js: "json_loads toy md = Some (JObject [(ascii ''filename'', JString (ascii ''message.txt''))])"
    unfolding md_def by (rule toy_json_message_txt)
  have gf: "get_filename (JObject [(ascii ''filename'', JString (ascii ''message.txt''))]) = Inr (ascii ''message.txt'')"
    by (rule get_filename_object)
  have dec: "fernet_decrypt toy key token = Some ''hello''"
    unfolding key_def token_def by (rule toy_decrypt_same)
  define r where "r = decode toy [] (ascii ''out.png'') (Some (ascii ''hunter2'')) False None False w1"
  have isf: "isfile w0 (ascii ''message.txt'')" "fs w0 (ascii ''message.txt'') = Some ''hello''"
      "basename (ascii ''message.txt'') = ascii ''message.txt''"
    by (simp add: isfile_def w0_def, simp add: ascii_def, simp add: w0_def,
        rule basename_plain, simp add: ascii_def)
  have gk': "generate_key toy [] (Some (ascii ''hunter2'')) w1
            = (logging Info_key_from_user w1, Some key)"
    unfolding key_def by (rule toy_generate_key) (simp_all add: is_ascii_def)
  have ud: "utf8_decode ''hello'' = Some (ascii ''hello'')"
    unfolding ascii_def by (rule utf8_decode_ascii) (simp add: is_ascii_def)
  have ue: "utf8_encode (ascii ''hello'') = Some ''hello''"
    by (rule utf8_encode_ascii_str) (simp add: is_ascii_def)
  have nf: "\<not> isfile w0 (ascii ''hello'')"
    by (simp add: isfile_def w0_def ascii_def)
  note t = decode_file_named_message_txt [OF is_png_ascii(1) is_png_ascii(2) gk kne isf
      enc im op ms [unfolded md_def] hide [unfolded md_def] save [unfolded md_def]
      reopen [unfolded md_def] rev [unfolded md_def] js [unfolded md_def] gf w1_def gk' dec,
      of False None False]
  have "snd r = Some (ascii ''hello'')
    \<and> fs (fst r) = fs w1
    \<and> out (fst r) = out w1 @ [Decoded_message (ascii ''hello'')]
    \<and> encode toy [] [] (ascii ''a.png'') (ascii ''hello'') (ascii ''out.png'')
          (Some (ascii ''hunter2'')) w0
       = encode toy [] [] (ascii ''a.png'') (ascii ''message.txt'') (ascii ''out.png'')
          (Some (ascii ''hunter2'')) w0"
    using t ud ue nf unfolding r_def by (simp add: print_def logging_def)
  then show ?thesis
    unfolding Let_def w0_def [symmetric] w1_def [symmetric] r_def [symmetric]
    by simp
qed

text \<open>
  The claim as stated fails for a file \<open>message.txt\<close> whose contents are not valid UTF-8,
  here the single byte \<open>0xFF\<close>: the decrypted bytes are neither printed nor returned.
\<close>

theorem decode_file_named_message_txt_not_text:
  "let w0 = world0\<lparr>fs := [ascii ''a.png'' \<mapsto> [char_of (40::nat), char_of (40::nat)],
                          ascii ''message.txt'' \<mapsto> [CHR 0xFF]]\<rparr>;
       w1 = fst (encode toy [] [] (ascii ''a.png'') (ascii ''message.txt'') (ascii ''out.png'')
                   (Some (ascii ''hunter2'')) w0);
       r = decode toy [] (ascii ''out.png'') (Some (ascii ''hunter2'')) False None False w1
   in fs w1 (ascii ''out.png'')
        = Some (char_of (40::nat) # char_of (40::nat)
                 # frame (urlsafe_b64encode (toy_sha256 ''hunter2'') @ [CHR 0xFF])
                     (json_dumps_filename (ascii ''message.txt'')))
    \<and> snd r = None
    \<and> out (fst r) = out w1
    \<and> log (fst r) = log w1 @ [Info_key_from_user, Info_decrypted,
                               Error_decoding_failed UnicodeDecodeError]"
proof -
  define w0 where "w0 = world0\<lparr>fs := [ascii ''a.png'' \<mapsto> [char_of (40::nat), char_of (40::nat)],
                          ascii ''message.txt'' \<mapsto> [CHR 0xFF]]\<rparr>"
  define key where "key = urlsafe_b64encode (toy_sha256 ''hunter2'')"
  define token where "token = key @ [CHR 0xFF]"
  define md where "md = json_dumps_filename (ascii ''message.txt'')"
  define file' where "file' = char_of (40::nat) # char_of (40::nat) # frame token md"
  define w1 where "w1 = fst (encode toy [] [] (ascii ''a.png'') (ascii ''message.txt'')
                   (ascii ''out.png'') (Some (ascii ''hunter2'')) w0)"
  have lk: "length key = 44" by (simp add: key_def)
  have im: "fs w0 (ascii ''a.png'') = Some [char_of (40::nat), char_of (40::nat)]"
    by (simp add: w0_def ascii_def)
  have pl: "payload w0 (ascii ''message.txt'') = Some (ascii ''message.txt'', [CHR 0xFF])"
  proof -
    have "isfile w0 (ascii ''message.txt'')"
      by (simp add: isfile_def w0_def) (simp add: ascii_def)
    moreover have "fs w0 (ascii ''message.txt'') = Some [CHR 0xFF]" by (simp add: w0_def)
    moreover have "basename (ascii ''message.txt'') = ascii ''message.txt''"
      by (rule basename_plain) (simp add: ascii_def)
    ultimately show ?thesis by (simp add: payload_def)
  qed
  have gk: "generate_key toy [] (Some (ascii ''hunter2'')) w0
            = (logging Info_key_from_user w0, Some key)"
    unfolding key_def by (rule toy_generate_key) (simp_all add: is_ascii_def)
  have kne: "key \<noteq> []" unfolding key_def by (rule toy_key_nonempty)
  have enc: "fernet_encrypt toy key [] [CHR 0xFF] = Some token"
    unfolding key_def token_def by (rule toy_encrypt_key)
  have op: "image_open toy [char_of (40::nat), char_of (40::nat)] = Some (40, 40, [])"
    by (rule toy_open_blank) simp_all
  have lf: "length (frame token md) \<le> 600"
    by (simp add: length_frame token_def lk md_def length_json_message_txt)
  have ms: "message_size token md \<le> max_message_size toy (40, 40, [])"
    by (simp add: message_size_def max_message_size_def token_def lk md_def length_json_message_txt)
  have hide: "lsb_hide toy (40, 40, []) (map of_char (frame token md))
              = Some (40, 40, map of_char (frame token md))"
    by (rule toy_hide_frame) (use lf in simp)
  have save: "image_save toy (40, 40, map of_char (frame token md)) (ascii ''out.png'')
              = Some file'"
    unfolding md_def file'_def by (rule toy_save_frame)
  have reopen: "image_open toy file' = Some (40, 40, map of_char (frame token md))"
    unfolding md_def file'_def by (rule toy_open_frame) simp_all
  have rev: "lsb_reveal toy (40, 40, map of_char (frame token md))
             = Some (Some (map of_char (frame token md)))"
    by (rule toy_reveal_frame)
  have js: "json_loads toy md = Some (JObject [(ascii ''filename'', JString (ascii ''message.txt''))])"
    unfolding md_def by (rule toy_json_message_txt)
  have gf: "get_filename (JObject [(ascii ''filename'', JString (ascii ''message.txt''))]) = Inr (ascii ''message.txt'')"
    by (rule get_filename_object)
  have dec: "fernet_decrypt toy key token = Some [CHR 0xFF]"
    unfolding key_def token_def by (rule toy_decrypt_same)
  define r where "r = decode toy [] (ascii ''out.png'') (Some (ascii ''hunter2'')) False None False w1"
  have gk': "generate_key toy [] (Some (ascii ''hunter2'')) w1
            = (logging Info_key_from_user w1, Some key)"
    unfolding key_def by (rule toy_generate_key) (simp_all add: is_ascii_def)
  have ud: "utf8_decode [CHR 0xFF] = None" by simp
  have f: "fs w1 (ascii ''out.png'') = Some file'"
    unfolding w1_def
      encode_success_fs [OF is_png_ascii(1) gk kne pl enc im op ms [unfolded md_def]
        hide [unfolded md_def] save [unfolded md_def]]
    by simp
  have d: "r = (logging (Error_decoding_failed UnicodeDecodeError)
                 (logging Info_decrypted (logging Info_key_from_user w1)), None)"
    unfolding r_def
      encode_decode_same_key [OF is_png_ascii(1) is_png_ascii(2) gk kne pl
        enc im op ms [unfolded md_def] hide [unfolded md_def] save [unfolded md_def]
        reopen [unfolded md_def] rev [unfolded md_def] js [unfolded md_def] gf w1_def gk' dec]
    by (simp add: deliver_text_undecodable [OF ud])
  have "fs w1 (ascii ''out.png'') = Some file'
    \<and> snd r = None
    \<and> out (fst r) = out w1
    \<and> log (fst r) = log w1 @ [Info_key_from_user, Info_decrypted,
                               Error_decoding_failed UnicodeDecodeError]"
    using f unfolding d by (simp add: logging_def)
  then show ?thesis
    unfolding Let_def w0_def [symmetric] w1_def [symmetric] r_def [symmetric]
      file'_def token_def key_def md_def
    by simp
qed

end
